theory Spec2Isabelle
  imports Main
begin

section \<open>JavaScript values\<close>

text \<open>
  The program is JavaScript: the values it handles are dynamically typed, and the
  bookmark and folder entities are plain objects. A value of the program is a
  \<open>jsval\<close>. An object is the list of its own properties in property order (keys
  are distinct in a real object, see \<open>proper\<close> below); an array is a list; a \<open>Date\<close>
  carries its time value in milliseconds, \<open>None\<close> for an invalid date. Numbers are
  integers: fractional and non-finite numbers are outside this model. A string is the
  list of the bytes of its UTF-8 encoding, so the Chinese labels of the source are
  written byte by byte, with their code points in the comment beside them.
\<close>

datatype jsval =
    Undefined
  | Null
  | Bool bool
  | Num int
  | Str string
  | Date "int option"
  | Arr "jsval list"
  | Obj "(string \<times> jsval) list"

text \<open>
  What a \<open>throw\<close> carries: the engine's \<open>TypeError\<close> (a property read on
  \<open>undefined\<close> or \<open>null\<close>, a call of something that is not a function), the
  \<open>SyntaxError\<close> of \<open>JSON.parse\<close>, and \<open>new Error(message)\<close> of the program.
\<close>

datatype error = TypeError | SyntaxError | Error string

text \<open>
  What the program takes from its platform and does not define itself. Every
  definition that needs one of these takes the platform as its first argument.
  \<^item> \<open>url_hostname s\<close>: \<open>new URL(s).hostname\<close>, \<open>None\<close> when the constructor throws;
  \<^item> \<open>date_now\<close>: the time value of \<open>new Date()\<close>;
  \<^item> \<open>date_iso t\<close>: \<open>toISOString()\<close> of the valid date with time value \<open>t\<close>;
  \<^item> \<open>date_string d\<close>: \<open>toString()\<close> of a date, which depends on the time zone;
  \<^item> \<open>date_value v\<close>: the time value of \<open>new Date(v)\<close> for a \<open>v\<close> that is
    neither a number nor a date (a date string, say), or what the conversion throws;
  \<^item> \<open>engine_message e\<close>: the \<open>message\<close> of an error the engine throws;
  \<^item> \<open>parse_int s\<close>: \<open>parseInt(s)\<close>, \<open>None\<close> for \<open>NaN\<close>;
  \<^item> \<open>random_draw j\<close>: \<open>Math.floor(Math.random() * 62)\<close> at the \<open>j\<close>-th call of
    \<open>Math.random\<close> during one run of a parser;
  \<^item> \<open>lower_case s\<close>: \<open>s.toLowerCase()\<close> for a string \<open>s\<close> that has a character
    beyond ASCII, where the result depends on the case tables of Unicode.
\<close>

record platform =
  url_hostname :: "string \<Rightarrow> string option"
  date_now :: int
  date_iso :: "int \<Rightarrow> string"
  date_string :: "int option \<Rightarrow> string"
  date_value :: "jsval \<Rightarrow> error + int option"
  engine_message :: "error \<Rightarrow> string"
  parse_int :: "string \<Rightarrow> int option"
  random_draw :: "nat \<Rightarrow> nat"
  lower_case :: "string \<Rightarrow> string"

fun truthy :: "jsval \<Rightarrow> bool" where
  "truthy Undefined = False"
| "truthy Null = False"
| "truthy (Bool b) = b"
| "truthy (Num n) = (n \<noteq> 0)"
| "truthy (Str s) = (s \<noteq> [])"
| "truthy (Date d) = True"
| "truthy (Arr xs) = True"
| "truthy (Obj kvs) = True"

text \<open>
  \<open>get v k\<close> is the property read \<open>v.k\<close>. It throws on \<open>undefined\<close> and
  \<open>null\<close>; an object gives its own property or \<open>undefined\<close>. The program reads
  only the names \<open>bookmarks\<close>, \<open>folders\<close>, \<open>roots\<close>, \<open>bookmark_bar\<close>,
  \<open>other\<close>, \<open>synced\<close>, \<open>id\<close>, \<open>title\<close>, \<open>url\<close>, \<open>children\<close>,
  \<open>dateAdded\<close>, \<open>description\<close>, \<open>folder\<close>, \<open>tags\<close>, \<open>path\<close>,
  \<open>type\<close> and \<open>domain\<close> this way; no prototype defines any of them, so every
  other value gives \<open>undefined\<close>.
\<close>

fun get :: "jsval \<Rightarrow> string \<Rightarrow> error + jsval" where
  "get Undefined k = Inl TypeError"
| "get Null k = Inl TypeError"
| "get (Obj kvs) k = Inr (case map_of kvs k of None \<Rightarrow> Undefined | Some v \<Rightarrow> v)"
| "get v k = Inr Undefined"

text \<open>The characters of a string, and none for any other value.\<close>

definition text_of :: "jsval \<Rightarrow> string" where
  "text_of v = (case v of Str s \<Rightarrow> s | _ \<Rightarrow> [])"

definition message :: "platform \<Rightarrow> error \<Rightarrow> string" where
  "message P e = (case e of Error m \<Rightarrow> m | _ \<Rightarrow> engine_message P e)"

subsection \<open>Strings\<close>

text \<open>
  A string is held as the bytes of its UTF-8 encoding, so a string of ASCII
  characters is one whose bytes are all below 128. On such a string
  \<open>toLowerCase\<close> lowers the letters \<open>A\<close> to \<open>Z\<close> and changes nothing else; on a
  string with a character beyond ASCII the result is the platform's.
  \<open>includes\<close> is the search for a contiguous occurrence.
\<close>

definition is_ascii :: "char \<Rightarrow> bool" where
  "is_ascii c = ((of_char c :: nat) < 128)"

definition lower_char :: "char \<Rightarrow> char" where
  "lower_char c =
     (let n = (of_char c :: nat) in if 65 \<le> n \<and> n \<le> 90 then char_of (n + 32) else c)"

definition toLowerCase :: "platform \<Rightarrow> string \<Rightarrow> string" where
  "toLowerCase P s = (if list_all is_ascii s then map lower_char s else lower_case P s)"

fun starts_with :: "string \<Rightarrow> string \<Rightarrow> bool" where
  "starts_with s [] = True"
| "starts_with [] (c # t) = False"
| "starts_with (d # s) (c # t) = (d = c \<and> starts_with s t)"

fun str_includes :: "string \<Rightarrow> string \<Rightarrow> bool" where
  "str_includes [] t = (t = [])"
| "str_includes (c # s) t = (starts_with (c # s) t \<or> str_includes s t)"

text \<open>
  \<open>trim\<close> removes the white space and the line terminators of the language from
  both ends of a string. They are the code points U+0009 to U+000D, U+0020, U+00A0,
  U+1680, U+2000 to U+200A, U+2028, U+2029, U+202F, U+205F, U+3000 and U+FEFF, listed
  here in their encodings. \<open>strip ws s\<close> removes from the front of \<open>s\<close> every
  leading occurrence of a member of \<open>ws\<close>; the end of the string is the front of
  its reversal.
\<close>

definition WHITE_SPACE :: "string list" where
  "WHITE_SPACE =
     [[CHR 0x09], [CHR 0x0A], [CHR 0x0B], [CHR 0x0C], [CHR 0x0D], [CHR 0x20],
      [CHR 0xC2, CHR 0xA0],
      [CHR 0xE1, CHR 0x9A, CHR 0x80],
      [CHR 0xE2, CHR 0x80, CHR 0x80], [CHR 0xE2, CHR 0x80, CHR 0x81],
      [CHR 0xE2, CHR 0x80, CHR 0x82], [CHR 0xE2, CHR 0x80, CHR 0x83],
      [CHR 0xE2, CHR 0x80, CHR 0x84], [CHR 0xE2, CHR 0x80, CHR 0x85],
      [CHR 0xE2, CHR 0x80, CHR 0x86], [CHR 0xE2, CHR 0x80, CHR 0x87],
      [CHR 0xE2, CHR 0x80, CHR 0x88], [CHR 0xE2, CHR 0x80, CHR 0x89],
      [CHR 0xE2, CHR 0x80, CHR 0x8A],
      [CHR 0xE2, CHR 0x80, CHR 0xA8], [CHR 0xE2, CHR 0x80, CHR 0xA9],
      [CHR 0xE2, CHR 0x80, CHR 0xAF],
      [CHR 0xE2, CHR 0x81, CHR 0x9F],
      [CHR 0xE3, CHR 0x80, CHR 0x80],
      [CHR 0xEF, CHR 0xBB, CHR 0xBF]]"

lemma starts_with_iff: "starts_with s t \<longleftrightarrow> (\<exists>q. s = t @ q)"
  by (induction s t rule: starts_with.induct) auto

function strip :: "string list \<Rightarrow> string \<Rightarrow> string" where
  "strip ws s =
     (case List.find (starts_with s) ws of
        None \<Rightarrow> s
      | Some w \<Rightarrow> if w = [] then s else strip ws (drop (length w) s))"
  by pat_completeness auto
termination
proof (relation "measure (\<lambda>(ws, s). length s)", goal_cases)
  case 1
  then show ?case by simp
next
  case (2 ws s w)
  then have "starts_with s w" by (auto simp: find_Some_iff)
  then obtain q where "s = w @ q" by (auto simp: starts_with_iff)
  with 2 show ?case by simp
qed

declare strip.simps [simp del]

definition trim :: "string \<Rightarrow> string" where
  "trim s = rev (strip (map rev WHITE_SPACE) (rev (strip WHITE_SPACE s)))"

section \<open>JSON text\<close>

text \<open>
  \<open>JSON.parse\<close> and \<open>JSON.stringify\<close> are the platform's. A text is
  represented by the JSON document it denotes, or \<open>NotJSON\<close> when it denotes
  none; the spelling of a document (white space, indentation) is not modelled.
  \<open>to_json\<close> is the serialisation of a value as \<open>JSON.stringify\<close> does it:
  \<open>None\<close> stands for \<open>undefined\<close>, whose property is left out and whose array
  slot reads \<open>null\<close>; a date is serialised through its \<open>toJSON\<close>, the ISO string,
  or \<open>null\<close> when it is invalid. \<open>of_json\<close> is the value \<open>JSON.parse\<close> builds:
  a key that is written twice keeps its first position and its last value. (The
  language lists the keys of an object that are array indices before its other
  keys; the objects of this program, bookmarks, folders and the parts of a
  bookmark file, have no such keys, and the order of such keys in a text is not
  modelled.)
\<close>

datatype json =
    JNull
  | JBool bool
  | JNum int
  | JStr string
  | JArr "json list"
  | JObj "(string \<times> json) list"

datatype jtext = NotJSON | JSON json

fun put :: "(string \<times> jsval) list \<Rightarrow> string \<Rightarrow> jsval \<Rightarrow> (string \<times> jsval) list" where
  "put [] k v = [(k, v)]"
| "put ((k', v') # kvs) k v = (if k' = k then (k, v) # kvs else (k', v') # put kvs k v)"

definition define_all :: "(string \<times> jsval) list \<Rightarrow> (string \<times> jsval) list" where
  "define_all kvs = foldl (\<lambda>acc kv. put acc (fst kv) (snd kv)) [] kvs"

fun of_json :: "json \<Rightarrow> jsval" where
  "of_json JNull = Null"
| "of_json (JBool b) = Bool b"
| "of_json (JNum n) = Num n"
| "of_json (JStr s) = Str s"
| "of_json (JArr js) = Arr (map of_json js)"
| "of_json (JObj kvs) = Obj (define_all (map (\<lambda>kv. (fst kv, of_json (snd kv))) kvs))"

definition JSON_parse :: "jtext \<Rightarrow> error + jsval" where
  "JSON_parse t = (case t of NotJSON \<Rightarrow> Inl SyntaxError | JSON j \<Rightarrow> Inr (of_json j))"



section \<open>The API instance: import and export\<close>

text \<open>
  The state of a \<open>BookmarkAPI\<close> instance. Every assignment to \<open>this.bookmarks\<close>
  in the class stores an array (the constructor's \<open>[]\<close>, a parser's array, or
  \<open>data.bookmarks\<close> after \<open>Array.isArray\<close> said so), so the field is the list
  of the array's elements; \<open>this.folders\<close> can become any value
  (\<open>data.folders || []\<close>).
\<close>

record api =
  bookmarks :: "jsval list"
  folders :: jsval
  isSupported :: bool

definition isArray :: "jsval \<Rightarrow> bool" where
  "isArray v = (case v of Arr xs \<Rightarrow> True | _ \<Rightarrow> False)"

definition items :: "jsval \<Rightarrow> jsval list" where
  "items v = (case v of Arr xs \<Rightarrow> xs | _ \<Rightarrow> [])"

text \<open>The message of the import's own error, U+65E0 U+6548 U+7684 U+4E66 U+7B7E U+6570
  U+636E U+683C U+5F0F ("invalid bookmark data format").\<close>

definition INVALID_FORMAT :: string where
  "INVALID_FORMAT =
     [CHR 0xE6, CHR 0x97, CHR 0xA0, CHR 0xE6, CHR 0x95, CHR 0x88, CHR 0xE7, CHR 0x9A, CHR 0x84,
      CHR 0xE4, CHR 0xB9, CHR 0xA6, CHR 0xE7, CHR 0xAD, CHR 0xBE, CHR 0xE6, CHR 0x95, CHR 0xB0,
      CHR 0xE6, CHR 0x8D, CHR 0xAE, CHR 0xE6, CHR 0xA0, CHR 0xBC, CHR 0xE5, CHR 0xBC, CHR 0x8F]"

text \<open>The object \<open>{success: true, data: {bookmarks, folders, total}}\<close> that the
  ingestion operations return.\<close>

definition success :: "api \<Rightarrow> jsval" where
  "success a =
     Obj [(''success'', Bool True),
          (''data'', Obj [(''bookmarks'', Arr (bookmarks a)),
                          (''folders'', folders a),
                          (''total'', Num (int (length (bookmarks a))))])]"

definition failure :: "platform \<Rightarrow> error \<Rightarrow> jsval" where
  "failure P e = Obj [(''success'', Bool False), (''error'', Str (message P e))]"


text \<open>The body of the \<open>try\<close> block of \<open>importBookmarks\<close>: the new state, or
  what is thrown. (Here and in the parsers the \<open>catch\<close> blocks also write to the
  console, which is left out.)\<close>

definition import_try :: "api \<Rightarrow> jtext \<Rightarrow> error + api" where
  "import_try a jsonData =
     (case JSON_parse jsonData of
        Inl e \<Rightarrow> Inl e
      | Inr data \<Rightarrow>
          (case get data ''bookmarks'' of
             Inl e \<Rightarrow> Inl e
           | Inr b \<Rightarrow>
               if \<not> truthy b \<or> \<not> isArray b then Inl (Error INVALID_FORMAT)
               else (case get data ''folders'' of
                       Inl e \<Rightarrow> Inl e
                     | Inr f \<Rightarrow>
                         Inr (a\<lparr>bookmarks := items b,
                                 folders := (if truthy f then f else Arr [])\<rparr>))))"

text \<open>\<open>importBookmarks\<close> returns its result object together with the state of
  the instance after the call.\<close>

definition importBookmarks :: "platform \<Rightarrow> api \<Rightarrow> jtext \<Rightarrow> jsval \<times> api" where
  "importBookmarks P a jsonData =
     (case import_try a jsonData of
        Inr a' \<Rightarrow> (success a', a')
      | Inl e \<Rightarrow> (failure P e, a))"

section \<open>Query engine\<close>

text \<open>
  \<open>a || b\<close> on tests that may throw: \<open>b\<close> is evaluated only when \<open>a\<close> is
  false.
\<close>

definition or_else :: "error + bool \<Rightarrow> error + bool \<Rightarrow> error + bool" where
  "or_else x y = (case x of Inl e \<Rightarrow> Inl e | Inr t \<Rightarrow> if t then Inr True else y)"

text \<open>\<open>bookmark.k.toLowerCase().includes(searchTerm)\<close>: only a string has
  \<open>toLowerCase\<close>.\<close>

definition field_includes :: "platform \<Rightarrow> jsval \<Rightarrow> string \<Rightarrow> string \<Rightarrow> error + bool" where
  "field_includes P b k searchTerm =
     (case get b k of
        Inl e \<Rightarrow> Inl e
      | Inr v \<Rightarrow> (case v of
                   Str s \<Rightarrow> Inr (str_includes (toLowerCase P s) searchTerm)
                 | _ \<Rightarrow> Inl TypeError))"

text \<open>\<open>tags.some(tag => tag.toLowerCase().includes(searchTerm))\<close> on the
  elements of the array, stopping at the first hit.\<close>

fun some_tag :: "platform \<Rightarrow> string \<Rightarrow> jsval list \<Rightarrow> error + bool" where
  "some_tag P searchTerm [] = Inr False"
| "some_tag P searchTerm (tag # tags) =
     (case tag of
        Str s \<Rightarrow> if str_includes (toLowerCase P s) searchTerm then Inr True
                 else some_tag P searchTerm tags
      | _ \<Rightarrow> Inl TypeError)"

definition tags_some :: "platform \<Rightarrow> jsval \<Rightarrow> string \<Rightarrow> error + bool" where
  "tags_some P b searchTerm =
     (case get b ''tags'' of
        Inl e \<Rightarrow> Inl e
      | Inr v \<Rightarrow> (case v of Arr tags \<Rightarrow> some_tag P searchTerm tags | _ \<Rightarrow> Inl TypeError))"

definition matches :: "platform \<Rightarrow> string \<Rightarrow> jsval \<Rightarrow> error + bool" where
  "matches P searchTerm b =
     or_else (field_includes P b ''title'' searchTerm)
    (or_else (field_includes P b ''url'' searchTerm)
    (or_else (field_includes P b ''description'' searchTerm)
    (or_else (field_includes P b ''folder'' searchTerm)
             (tags_some P b searchTerm))))"

text \<open>\<open>Array.prototype.filter\<close> with a callback that may throw: the elements are
  tested in order and the first throw ends the call. Only an array has \<open>filter\<close>.\<close>

fun filter_list :: "(jsval \<Rightarrow> error + bool) \<Rightarrow> jsval list \<Rightarrow> error + jsval list" where
  "filter_list p [] = Inr []"
| "filter_list p (x # xs) =
     (case p x of
        Inl e \<Rightarrow> Inl e
      | Inr keep \<Rightarrow>
          (case filter_list p xs of
             Inl e \<Rightarrow> Inl e
           | Inr ys \<Rightarrow> Inr (if keep then x # ys else ys)))"

definition js_filter :: "(jsval \<Rightarrow> error + bool) \<Rightarrow> jsval \<Rightarrow> error + jsval" where
  "js_filter p v =
     (case v of
        Arr xs \<Rightarrow> (case filter_list p xs of Inl e \<Rightarrow> Inl e | Inr ys \<Rightarrow> Inr (Arr ys))
      | _ \<Rightarrow> Inl TypeError)"

text \<open>\<open>bookmarks || this.bookmarks\<close>; the parameter is \<open>null\<close> when the caller
  leaves it out.\<close>

definition target :: "api \<Rightarrow> jsval \<Rightarrow> jsval" where
  "target a bms = (if truthy bms then bms else Arr (bookmarks a))"

definition searchBookmarks :: "platform \<Rightarrow> api \<Rightarrow> string \<Rightarrow> jsval \<Rightarrow> error + jsval" where
  "searchBookmarks P a keyword bms =
     (let targetBookmarks = target a bms in
      if keyword = [] \<or> trim keyword = [] then Inr targetBookmarks
      else let searchTerm = trim (toLowerCase P keyword)
           in js_filter (matches P searchTerm) targetBookmarks)"

definition folder_is :: "string \<Rightarrow> jsval \<Rightarrow> error + bool" where
  "folder_is folderName b =
     (case get b ''folder'' of Inl e \<Rightarrow> Inl e | Inr v \<Rightarrow> Inr (v = Str folderName))"

definition filterByFolder :: "api \<Rightarrow> string \<Rightarrow> jsval \<Rightarrow> error + jsval" where
  "filterByFolder a folderName bms =
     (let targetBookmarks = target a bms in
      if folderName = [] then Inr targetBookmarks
      else js_filter (folder_is folderName) targetBookmarks)"

text \<open>\<open>bookmark.tags.includes(tag)\<close>: membership in an array, containment in a
  string; nothing else has \<open>includes\<close>.\<close>

definition tags_include :: "string \<Rightarrow> jsval \<Rightarrow> error + bool" where
  "tags_include tag b =
     (case get b ''tags'' of
        Inl e \<Rightarrow> Inl e
      | Inr v \<Rightarrow> (case v of
                   Arr tags \<Rightarrow> Inr (Str tag \<in> set tags)
                 | Str s \<Rightarrow> Inr (str_includes s tag)
                 | _ \<Rightarrow> Inl TypeError))"

definition filterByTag :: "api \<Rightarrow> string \<Rightarrow> jsval \<Rightarrow> error + jsval" where
  "filterByTag a tag bms =
     (let targetBookmarks = target a bms in
      if tag = [] then Inr targetBookmarks
      else js_filter (tags_include tag) targetBookmarks)"

section \<open>Conversions and comparisons of the language\<close>

text \<open>
  \<open>to_string\<close> is the conversion a template literal applies to a value
  (\<open>ToString\<close>): a number is written in decimal, an array is the join of its
  elements with commas, where \<open>undefined\<close> and \<open>null\<close> give the empty string, and
  an object is \<open>[object Object]\<close>, unless it has an own property \<open>toString\<close>,
  which is no function in a value that comes from JSON, and then the conversion
  throws.
\<close>

fun show_nat :: "nat \<Rightarrow> string" where
  "show_nat n =
     (if n < 10 then [char_of (48 + n)] else show_nat (n div 10) @ [char_of (48 + n mod 10)])"

declare show_nat.simps [simp del]

definition show_int :: "int \<Rightarrow> string" where
  "show_int i = (if i < 0 then CHR ''-'' # show_nat (nat (- i)) else show_nat (nat i))"

fun join_with :: "string \<Rightarrow> string list \<Rightarrow> string" where
  "join_with sep [] = []"
| "join_with sep [s] = s"
| "join_with sep (s # t # ss) = s @ sep @ join_with sep (t # ss)"

fun all_ok :: "(error + 'a) list \<Rightarrow> error + 'a list" where
  "all_ok [] = Inr []"
| "all_ok (r # rs) =
     (case r of
        Inl e \<Rightarrow> Inl e
      | Inr x \<Rightarrow> (case all_ok rs of Inl e \<Rightarrow> Inl e | Inr xs \<Rightarrow> Inr (x # xs)))"

fun to_string :: "platform \<Rightarrow> jsval \<Rightarrow> error + string" where
  "to_string P Undefined = Inr ''undefined''"
| "to_string P Null = Inr ''null''"
| "to_string P (Bool b) = Inr (if b then ''true'' else ''false'')"
| "to_string P (Num n) = Inr (show_int n)"
| "to_string P (Str s) = Inr s"
| "to_string P (Date d) = Inr (date_string P d)"
| "to_string P (Arr xs) =
     (case all_ok (map (\<lambda>x. if x = Undefined \<or> x = Null then Inr [] else to_string P x) xs) of
        Inl e \<Rightarrow> Inl e
      | Inr ss \<Rightarrow> Inr (join_with '','' ss))"
| "to_string P (Obj kvs) =
     (if ''toString'' \<in> fst ` set kvs then Inl TypeError else Inr ''[object Object]'')"

text \<open>
  \<open>a === b\<close>. On arrays, objects and dates the language compares references, which
  this type of values does not carry: two such values count as the same reference
  when they are the same term. The program compares paths, folder names and tags,
  which are strings wherever the titles of the input are strings.
\<close>

definition strict_eq :: "jsval \<Rightarrow> jsval \<Rightarrow> bool" where
  "strict_eq a b = (a = b)"

definition is_primitive :: "jsval \<Rightarrow> bool" where
  "is_primitive v = (case v of Date d \<Rightarrow> False | Arr xs \<Rightarrow> False | Obj kvs \<Rightarrow> False | _ \<Rightarrow> True)"

text \<open>\<open>new Date(v)\<close>: a number is the time value itself when it is in the range
  of dates.\<close>

definition new_Date :: "platform \<Rightarrow> jsval \<Rightarrow> error + jsval" where
  "new_Date P v =
     (case v of
        Num n \<Rightarrow> Inr (Date (if \<bar>n\<bar> \<le> 8640000000000000 then Some n else None))
      | Date d \<Rightarrow> Inr (Date d)
      | _ \<Rightarrow> (case date_value P v of Inl e \<Rightarrow> Inl e | Inr d \<Rightarrow> Inr (Date d)))"

text \<open>\<open>v.includes(t)\<close> with a string \<open>t\<close>: containment in a string, membership
  in an array; nothing else has \<open>includes\<close>.\<close>

definition js_includes :: "jsval \<Rightarrow> string \<Rightarrow> error + bool" where
  "js_includes v t =
     (case v of
        Str s \<Rightarrow> Inr (str_includes s t)
      | Arr xs \<Rightarrow> Inr (Str t \<in> set xs)
      | _ \<Rightarrow> Inl TypeError)"

section \<open>Utilities (utils.js)\<close>

text \<open>\<open>StringUtils.extractDomain\<close>: the \<open>try\<close> block converts its argument to
  a string and parses it; whatever it throws is caught and the argument is
  returned as it came.\<close>

definition extractDomain :: "platform \<Rightarrow> jsval \<Rightarrow> jsval" where
  "extractDomain P url =
     (case to_string P url of
        Inl e \<Rightarrow> url
      | Inr s \<Rightarrow> (case url_hostname P s of None \<Rightarrow> url | Some h \<Rightarrow> Str h))"

text \<open>
  \<open>ArrayUtils.unique\<close>. A \<open>Set\<close> keeps its elements in the order of their first
  insertion, so \<open>[...new Set(arr)]\<close> is a fold of \<open>set_add\<close>. The key is
  \<open>None\<close> for the default \<open>null\<close>. With a key, the elements are filtered by the
  values of \<open>item[key]\<close> seen so far. Elements are compared as \<open>strict_eq\<close> does.
\<close>

definition set_add :: "jsval list \<Rightarrow> jsval \<Rightarrow> jsval list" where
  "set_add seen x = (if x \<in> set seen then seen else seen @ [x])"

fun unique_by :: "string \<Rightarrow> jsval list \<Rightarrow> jsval list \<Rightarrow> error + jsval list" where
  "unique_by key seen [] = Inr []"
| "unique_by key seen (item # arr) =
     (case get item key of
        Inl e \<Rightarrow> Inl e
      | Inr v \<Rightarrow>
          if v \<in> set seen then unique_by key seen arr
          else (case unique_by key (set_add seen v) arr of
                  Inl e \<Rightarrow> Inl e
                | Inr r \<Rightarrow> Inr (item # r)))"

definition unique :: "jsval \<Rightarrow> string option \<Rightarrow> error + jsval" where
  "unique arr key =
     (if \<not> isArray arr then Inr (Arr [])
      else (case key of
              None \<Rightarrow> Inr (Arr (foldl set_add [] (items arr)))
            | Some k \<Rightarrow>
                if k = [] then Inr (Arr (foldl set_add [] (items arr)))
                else (case unique_by k [] (items arr) of
                        Inl e \<Rightarrow> Inl e
                      | Inr r \<Rightarrow> Inr (Arr r))))"

section \<open>Descriptions and tags\<close>

text \<open>The labels of the source, as UTF-8: U+5F00 U+53D1 (development), U+7F16 U+7A0B
  (programming), U+89C6 U+9891 (video), U+95EE U+7B54 (questions and answers),
  U+641C U+7D22 (search), U+8D2D U+7269 (shopping), U+793E U+4EA4 (social),
  U+6587 U+6863 (documents), U+6559 U+7A0B (tutorial), U+65B0 U+95FB (news),
  U+535A U+5BA2 (blog).\<close>

definition TAG_DEV :: string where
  "TAG_DEV = [CHR 0xE5, CHR 0xBC, CHR 0x80, CHR 0xE5, CHR 0x8F, CHR 0x91]"

definition TAG_PROG :: string where
  "TAG_PROG = [CHR 0xE7, CHR 0xBC, CHR 0x96, CHR 0xE7, CHR 0xA8, CHR 0x8B]"

definition TAG_VIDEO :: string where
  "TAG_VIDEO = [CHR 0xE8, CHR 0xA7, CHR 0x86, CHR 0xE9, CHR 0xA2, CHR 0x91]"

definition TAG_QA :: string where
  "TAG_QA = [CHR 0xE9, CHR 0x97, CHR 0xAE, CHR 0xE7, CHR 0xAD, CHR 0x94]"

definition TAG_SEARCH :: string where
  "TAG_SEARCH = [CHR 0xE6, CHR 0x90, CHR 0x9C, CHR 0xE7, CHR 0xB4, CHR 0xA2]"

definition TAG_SHOP :: string where
  "TAG_SHOP = [CHR 0xE8, CHR 0xB4, CHR 0xAD, CHR 0xE7, CHR 0x89, CHR 0xA9]"

definition TAG_SOCIAL :: string where
  "TAG_SOCIAL = [CHR 0xE7, CHR 0xA4, CHR 0xBE, CHR 0xE4, CHR 0xBA, CHR 0xA4]"

definition TAG_DOC :: string where
  "TAG_DOC = [CHR 0xE6, CHR 0x96, CHR 0x87, CHR 0xE6, CHR 0xA1, CHR 0xA3]"

definition TAG_TUTORIAL :: string where
  "TAG_TUTORIAL = [CHR 0xE6, CHR 0x95, CHR 0x99, CHR 0xE7, CHR 0xA8, CHR 0x8B]"

definition TAG_NEWS :: string where
  "TAG_NEWS = [CHR 0xE6, CHR 0x96, CHR 0xB0, CHR 0xE9, CHR 0x97, CHR 0xBB]"

definition TAG_BLOG :: string where
  "TAG_BLOG = [CHR 0xE5, CHR 0x8D, CHR 0x9A, CHR 0xE5, CHR 0xAE, CHR 0xA2]"

text \<open>The description is U+6765 U+81EA, a space, the domain, a space and U+7684 U+4E66
  U+7B7E ("bookmark from <domain>").\<close>

definition DESCRIPTION_PREFIX :: string where
  "DESCRIPTION_PREFIX = [CHR 0xE6, CHR 0x9D, CHR 0xA5, CHR 0xE8, CHR 0x87, CHR 0xAA, CHR '' '']"

definition DESCRIPTION_SUFFIX :: string where
  "DESCRIPTION_SUFFIX =
     [CHR '' '', CHR 0xE7, CHR 0x9A, CHR 0x84, CHR 0xE4, CHR 0xB9, CHR 0xA6, CHR 0xE7, CHR 0xAD,
      CHR 0xBE]"

definition generateDescription :: "platform \<Rightarrow> jsval \<Rightarrow> jsval \<Rightarrow> error + jsval" where
  "generateDescription P title url =
     (case to_string P (extractDomain P url) of
        Inl e \<Rightarrow> Inl e
      | Inr domain \<Rightarrow> Inr (Str (DESCRIPTION_PREFIX @ domain @ DESCRIPTION_SUFFIX)))"

text \<open>The twelve rules of \<open>generateTags\<close>, in the order of the source: the list
  \<open>tags\<close> after the eight rules on the domain, and after the four on the title.\<close>

definition domain_tags :: "(string \<Rightarrow> bool) \<Rightarrow> jsval list" where
  "domain_tags has =
     (if has ''github'' then [Str TAG_DEV] else []) @
     (if has ''stackoverflow'' then [Str TAG_PROG] else []) @
     (if has ''youtube'' then [Str TAG_VIDEO] else []) @
     (if has ''bilibili'' then [Str TAG_VIDEO] else []) @
     (if has ''zhihu'' then [Str TAG_QA] else []) @
     (if has ''baidu'' \<or> has ''google'' then [Str TAG_SEARCH] else []) @
     (if has ''taobao'' \<or> has ''jd'' then [Str TAG_SHOP] else []) @
     (if has ''weibo'' \<or> has ''twitter'' then [Str TAG_SOCIAL] else [])"

definition title_tags :: "string \<Rightarrow> jsval list" where
  "title_tags titleLower =
     (if str_includes titleLower ''doc'' \<or> str_includes titleLower TAG_DOC
      then [Str TAG_DOC] else []) @
     (if str_includes titleLower ''tutorial'' \<or> str_includes titleLower TAG_TUTORIAL
      then [Str TAG_TUTORIAL] else []) @
     (if str_includes titleLower ''news'' \<or> str_includes titleLower TAG_NEWS
      then [Str TAG_NEWS] else []) @
     (if str_includes titleLower ''blog'' \<or> str_includes titleLower TAG_BLOG
      then [Str TAG_BLOG] else [])"

text \<open>\<open>generateTags\<close>: \<open>domain.includes\<close> throws unless the domain is a string
  or an array, and \<open>title.toLowerCase()\<close> throws unless the title is a string.\<close>

definition generateTags :: "platform \<Rightarrow> jsval \<Rightarrow> jsval \<Rightarrow> error + jsval" where
  "generateTags P title url =
     (let domain = extractDomain P url in
      case js_includes domain ''github'' of
        Inl e \<Rightarrow> Inl e
      | Inr g \<Rightarrow>
          (case title of
             Str t \<Rightarrow>
               unique (Arr (domain_tags (\<lambda>s. js_includes domain s = Inr True) @
                            title_tags (toLowerCase P t))) None
           | _ \<Rightarrow> Inl TypeError))"

section \<open>The native-tree parser\<close>

text \<open>The fixed labels: U+6839 U+76EE U+5F55 (the folder of a bookmark with no enclosing
  folder), U+65E0 U+6807 U+9898 (the title of a bookmark without one), and the two
  titles for which no folder is created, U+4E66 U+7B7E U+680F (bookmarks bar) and
  U+5176 U+4ED6 U+4E66 U+7B7E (other bookmarks).\<close>

definition ROOT_FOLDER :: string where
  "ROOT_FOLDER = [CHR 0xE6, CHR 0xA0, CHR 0xB9, CHR 0xE7, CHR 0x9B, CHR 0xAE, CHR 0xE5, CHR 0xBD,
                  CHR 0x95]"

definition UNTITLED :: string where
  "UNTITLED = [CHR 0xE6, CHR 0x97, CHR 0xA0, CHR 0xE6, CHR 0xA0, CHR 0x87, CHR 0xE9, CHR 0xA2,
               CHR 0x98]"

definition BOOKMARKS_BAR :: string where
  "BOOKMARKS_BAR = [CHR 0xE4, CHR 0xB9, CHR 0xA6, CHR 0xE7, CHR 0xAD, CHR 0xBE, CHR 0xE6, CHR 0xA0,
                    CHR 0x8F]"

definition OTHER_BOOKMARKS :: string where
  "OTHER_BOOKMARKS = [CHR 0xE5, CHR 0x85, CHR 0xB6, CHR 0xE4, CHR 0xBB, CHR 0x96, CHR 0xE4, CHR 0xB9,
                      CHR 0xA6, CHR 0xE7, CHR 0xAD, CHR 0xBE]"

text \<open>
  The three accumulators of \<open>parseBookmarkTree\<close>. The array \<open>folders\<close> and the
  map \<open>folderMap\<close> hold the same folder objects, and a bookmark is pushed into the
  \<open>children\<close> of an object found through the map; so a folder object is known by
  its index in \<open>acc_folders\<close>, and the map holds indices. A \<open>Map\<close> keeps its
  keys in the order of their first insertion; \<open>set\<close> on a key that is there
  replaces the value in place. Keys are compared by value when they are primitive;
  an id that is an array or an object is a key of its own (each node has its own).
\<close>

record acc =
  acc_bookmarks :: "jsval list"
  acc_folders :: "jsval list"
  folderMap :: "(jsval \<times> nat) list"

definition same_key :: "jsval \<Rightarrow> jsval \<Rightarrow> bool" where
  "same_key a b = (is_primitive a \<and> a = b)"

fun map_set :: "(jsval \<times> nat) list \<Rightarrow> jsval \<Rightarrow> nat \<Rightarrow> (jsval \<times> nat) list" where
  "map_set [] k i = [(k, i)]"
| "map_set ((k', i') # m) k i =
     (if same_key k' k then (k', i) # m else (k', i') # map_set m k i)"

text \<open>\<open>v.k\<close> where \<open>v\<close> is known to be neither \<open>undefined\<close> nor \<open>null\<close>
  (an earlier read on it went through), so the read cannot throw.\<close>

definition field_of :: "jsval \<Rightarrow> string \<Rightarrow> jsval" where
  "field_of v k = (case get v k of Inl e \<Rightarrow> Undefined | Inr x \<Rightarrow> x)"

text \<open>\<open>parentFolder.children.push(bookmark)\<close> on a folder object.\<close>

definition push_child :: "jsval \<Rightarrow> jsval \<Rightarrow> jsval" where
  "push_child folder bookmark =
     (case folder of
        Obj kvs \<Rightarrow> Obj (map (\<lambda>kv. if fst kv = ''children''
                                    then (fst kv, Arr (items (snd kv) @ [bookmark]))
                                    else kv) kvs)
      | _ \<Rightarrow> folder)"

text \<open>\<open>Array.from(folderMap.values()).find(f => f.path === parentPath)\<close>: the
  first value of the map, in the order of its keys, whose path is the parent path.\<close>

definition find_parent :: "acc \<Rightarrow> jsval \<Rightarrow> nat option" where
  "find_parent st parentPath =
     List.find (\<lambda>i. strict_eq (field_of (acc_folders st ! i) ''path'') parentPath)
               (map snd (folderMap st))"

text \<open>A container node: the path, and the folder that is created unless the title
  is falsy or one of the two fixed titles.\<close>

definition folder_path :: "platform \<Rightarrow> jsval \<Rightarrow> jsval \<Rightarrow> error + jsval" where
  "folder_path P parentPath title =
     (if truthy parentPath
      then (case to_string P parentPath of
              Inl e \<Rightarrow> Inl e
            | Inr p \<Rightarrow> (case to_string P title of
                          Inl e \<Rightarrow> Inl e
                        | Inr t \<Rightarrow> Inr (Str (p @ ''/'' @ t))))
      else Inr title)"

definition add_folder :: "jsval \<Rightarrow> jsval \<Rightarrow> jsval \<Rightarrow> acc \<Rightarrow> acc" where
  "add_folder node folderPath parentPath st =
     (let folder = Obj [(''id'', field_of node ''id''),
                        (''title'', field_of node ''title''),
                        (''path'', folderPath),
                        (''parentPath'', parentPath),
                        (''children'', Arr [])]
      in st\<lparr>acc_folders := acc_folders st @ [folder],
             folderMap := map_set (folderMap st) (field_of node ''id'') (length (acc_folders st))\<rparr>)"

definition container_step :: "platform \<Rightarrow> jsval \<Rightarrow> jsval \<Rightarrow> acc \<Rightarrow> error + jsval \<times> acc" where
  "container_step P parentPath node st =
     (let title = field_of node ''title'' in
      case folder_path P parentPath title of
        Inl e \<Rightarrow> Inl e
      | Inr folderPath \<Rightarrow>
          Inr (folderPath,
               if truthy title \<and> title \<noteq> Str BOOKMARKS_BAR \<and> title \<noteq> Str OTHER_BOOKMARKS
               then add_folder node folderPath parentPath st
               else st))"

text \<open>A leaf node: the bookmark object, pushed to \<open>bookmarks\<close> and to the
  children of the parent folder when \<open>find\<close> gives one.\<close>

definition make_bookmark :: "platform \<Rightarrow> jsval \<Rightarrow> jsval \<Rightarrow> error + jsval" where
  "make_bookmark P parentPath node =
     (let title = field_of node ''title''; url = field_of node ''url''; dateAdded = field_of node ''dateAdded'' in
      case (if truthy dateAdded then new_Date P dateAdded else Inr (Date (Some (date_now P)))) of
        Inl e \<Rightarrow> Inl e
      | Inr date \<Rightarrow>
          (case generateDescription P title url of
             Inl e \<Rightarrow> Inl e
           | Inr description \<Rightarrow>
               (case generateTags P title url of
                  Inl e \<Rightarrow> Inl e
                | Inr tags \<Rightarrow>
                    Inr (Obj [(''id'', field_of node ''id''),
                              (''title'', if truthy title then title else Str UNTITLED),
                              (''url'', url),
                              (''folder'', if truthy parentPath then parentPath else Str ROOT_FOLDER),
                              (''dateAdded'', date),
                              (''description'', description),
                              (''tags'', tags),
                              (''domain'', extractDomain P url)]))))"

definition attach :: "jsval \<Rightarrow> jsval \<Rightarrow> acc \<Rightarrow> acc" where
  "attach parentPath bookmark st =
     (case find_parent st parentPath of
        None \<Rightarrow> st
      | Some i \<Rightarrow> st\<lparr>acc_folders := (acc_folders st)[i := push_child (acc_folders st ! i) bookmark]\<rparr>)"

definition leaf_step :: "platform \<Rightarrow> jsval \<Rightarrow> jsval \<Rightarrow> acc \<Rightarrow> error + acc" where
  "leaf_step P parentPath node st =
     (case make_bookmark P parentPath node of
        Inl e \<Rightarrow> Inl e
      | Inr bookmark \<Rightarrow>
          Inr (attach parentPath bookmark (st\<lparr>acc_bookmarks := acc_bookmarks st @ [bookmark]\<rparr>)))"

text \<open>
  \<open>traverse\<close>: \<open>nodes.forEach\<close> over the elements (\<open>traverse\<close>) and the body of
  the callback (\<open>visit\<close>). The default \<open>parentPath = ''\<close> of the parameter
  applies when the argument is \<open>undefined\<close>. Only an array has \<open>forEach\<close>.
\<close>

lemma size_children [termination_simp]:
  "get node k = Inr (Arr cs) \<Longrightarrow> size_list size cs < size node"
proof (cases node)
  case (Obj kvs)
  assume g: "get node k = Inr (Arr cs)"
  with Obj have "map_of kvs k = Some (Arr cs)"
    by (auto split: option.splits)
  then have "(k, Arr cs) \<in> set kvs" by (rule map_of_SomeD)
  then have "size_prod (\<lambda>_. 0) size (k, Arr cs) \<le> size_list (size_prod (\<lambda>_. 0) size) kvs"
    by (simp add: size_list_estimation')
  with Obj show ?thesis by simp
qed auto

function traverse :: "platform \<Rightarrow> jsval \<Rightarrow> jsval list \<Rightarrow> acc \<Rightarrow> error + acc"
  and visit :: "platform \<Rightarrow> jsval \<Rightarrow> jsval \<Rightarrow> acc \<Rightarrow> error + acc" where
  "traverse P parentPath [] st = Inr st"
| "traverse P parentPath (node # nodes) st =
     (case visit P parentPath node st of
        Inl e \<Rightarrow> Inl e
      | Inr st' \<Rightarrow> traverse P parentPath nodes st')"
| "visit P parentPath node st =
     (case get node ''children'' of
        Inl e \<Rightarrow> Inl e
      | Inr children \<Rightarrow>
          if truthy children
          then (case container_step P parentPath node st of
                  Inl e \<Rightarrow> Inl e
                | Inr (folderPath, st') \<Rightarrow>
                    (case children of
                       Arr cs \<Rightarrow> traverse P (if folderPath = Undefined then Str [] else folderPath) cs st'
                     | _ \<Rightarrow> Inl TypeError))
          else if truthy (field_of node ''url'') then leaf_step P parentPath node st
          else Inr st)"
  by pat_completeness auto
termination
  by (relation "measure (\<lambda>x. case x of
                   Inl (P, pp, nodes, st) \<Rightarrow> 2 * size_list size nodes
                 | Inr (P, pp, node, st) \<Rightarrow> 2 * size node + 1)")
     (auto dest: size_children)

definition empty_acc :: acc where
  "empty_acc = \<lparr>acc_bookmarks = [], acc_folders = [], folderMap = []\<rparr>"

text \<open>What a parser returns: \<open>{bookmarks, folders}\<close>.\<close>

record parsed =
  parsed_bookmarks :: jsval
  parsed_folders :: jsval

definition parseBookmarkTree :: "platform \<Rightarrow> jsval \<Rightarrow> error + parsed" where
  "parseBookmarkTree P bookmarkTreeNodes =
     (case bookmarkTreeNodes of
        Arr nodes \<Rightarrow>
          (case traverse P (Str []) nodes empty_acc of
             Inl e \<Rightarrow> Inl e
           | Inr st \<Rightarrow> Inr \<lparr>parsed_bookmarks = Arr (acc_bookmarks st),
                            parsed_folders = Arr (acc_folders st)\<rparr>)
      | _ \<Rightarrow> Inl TypeError)"

section \<open>The JSON file parser\<close>

text \<open>The messages of the two errors: U+65E0 U+6CD5 U+8BC6 U+522B U+7684 "JSON" U+4E66 U+7B7E
  U+683C U+5F0F (unrecognised JSON bookmark format), and the prefix U+89E3 U+6790 "JSON"
  U+6587 U+4EF6 U+5931 U+8D25 ": " (parsing the JSON file failed) that the \<open>catch\<close>
  block puts before the message of whatever was thrown.\<close>

definition UNRECOGNIZED_FORMAT :: string where
  "UNRECOGNIZED_FORMAT =
     [CHR 0xE6, CHR 0x97, CHR 0xA0, CHR 0xE6, CHR 0xB3, CHR 0x95, CHR 0xE8, CHR 0xAF, CHR 0x86,
      CHR 0xE5, CHR 0x88, CHR 0xAB, CHR 0xE7, CHR 0x9A, CHR 0x84, CHR ''J'', CHR ''S'', CHR ''O'',
      CHR ''N'', CHR 0xE4, CHR 0xB9, CHR 0xA6, CHR 0xE7, CHR 0xAD, CHR 0xBE, CHR 0xE6, CHR 0xA0,
      CHR 0xBC, CHR 0xE5, CHR 0xBC, CHR 0x8F]"

definition JSON_FAILED :: string where
  "JSON_FAILED =
     [CHR 0xE8, CHR 0xA7, CHR 0xA3, CHR 0xE6, CHR 0x9E, CHR 0x90, CHR ''J'', CHR ''S'', CHR ''O'',
      CHR ''N'', CHR 0xE6, CHR 0x96, CHR 0x87, CHR 0xE4, CHR 0xBB, CHR 0xB6, CHR 0xE5, CHR 0xA4,
      CHR 0xB1, CHR 0xE8, CHR 0xB4, CHR 0xA5, CHR '':'', CHR '' '']"

definition parseJSON_try :: "platform \<Rightarrow> jtext \<Rightarrow> error + parsed" where
  "parseJSON_try P jsonContent =
     (case JSON_parse jsonContent of
        Inl e \<Rightarrow> Inl e
      | Inr data \<Rightarrow>
          (case get data ''bookmarks'' of
             Inl e \<Rightarrow> Inl e
           | Inr b \<Rightarrow>
               if truthy b \<and> isArray b
               then Inr \<lparr>parsed_bookmarks = b,
                         parsed_folders = (if truthy (field_of data ''folders'')
                                           then field_of data ''folders'' else Arr [])\<rparr>
               else if truthy (field_of data ''roots'')
               then parseBookmarkTree P
                      (Arr [field_of (field_of data ''roots'') ''bookmark_bar'',
                            field_of (field_of data ''roots'') ''other'',
                            field_of (field_of data ''roots'') ''synced''])
               else Inl (Error UNRECOGNIZED_FORMAT)))"

definition parseJSONBookmarks :: "platform \<Rightarrow> jtext \<Rightarrow> error + parsed" where
  "parseJSONBookmarks P jsonContent =
     (case parseJSON_try P jsonContent of
        Inl e \<Rightarrow> Inl (Error (JSON_FAILED @ message P e))
      | Inr r \<Rightarrow> Inr r)"

section \<open>The markup parser\<close>

text \<open>
  \<open>parseHTMLBookmarks\<close> hands the text to the platform's \<open>DOMParser\<close> and
  works on the document it gets. The model starts there: an element has its tag
  name (in upper case, as the DOM of an HTML document gives it), its attributes
  under their lower-cased names, its child elements and its text content;
  \<open>getAttribute\<close> lower-cases the name it is asked for. The argument of the
  parser is what \<open>doc.querySelector('DL')\<close> returns: the first \<open>DL\<close> element,
  or none.
\<close>

datatype element =
  Element (tagName: string) (attrs: "(string \<times> string) list") (childElems: "element list")
          (textContent: string)

definition getAttribute :: "element \<Rightarrow> string \<Rightarrow> jsval" where
  "getAttribute el name =
     (case map_of (attrs el) (map lower_char name) of None \<Rightarrow> Null | Some v \<Rightarrow> Str v)"

text \<open>\<open>StringUtils.generateId\<close>: \<open>length\<close> characters drawn from the sixty-two
  of \<open>chars\<close>; \<open>k\<close> counts the draws made so far, and the count after the call is
  returned with the id.\<close>

definition ID_CHARS :: string where
  "ID_CHARS = ''ABCDEFGHIJKLMNOPQRSTUVWXYZabcdefghijklmnopqrstuvwxyz0123456789''"

definition generateId :: "platform \<Rightarrow> nat \<Rightarrow> nat \<Rightarrow> string \<times> nat" where
  "generateId P len k =
     (map (\<lambda>i. ID_CHARS ! (random_draw P (k + i) mod length ID_CHARS)) [0..<len], k + len)"

text \<open>The message when the document has no \<open>DL\<close>: U+65E0 U+6548 U+7684 U+4E66 U+7B7E
  U+6587 U+4EF6 U+FF1A U+627E U+4E0D U+5230 U+6839 "DL" U+5143 U+7D20 (invalid bookmark file:
  root DL element not found).\<close>

definition NO_ROOT_DL :: string where
  "NO_ROOT_DL =
     [CHR 0xE6, CHR 0x97, CHR 0xA0, CHR 0xE6, CHR 0x95, CHR 0x88, CHR 0xE7, CHR 0x9A,
      CHR 0x84, CHR 0xE4, CHR 0xB9, CHR 0xA6, CHR 0xE7, CHR 0xAD, CHR 0xBE, CHR 0xE6,
      CHR 0x96, CHR 0x87, CHR 0xE4, CHR 0xBB, CHR 0xB6, CHR 0xEF, CHR 0xBC, CHR 0x9A,
      CHR 0xE6, CHR 0x89, CHR 0xBE, CHR 0xE4, CHR 0xB8, CHR 0x8D, CHR 0xE5, CHR 0x88,
      CHR 0xB0, CHR 0xE6, CHR 0xA0, CHR 0xB9, CHR ''D'', CHR ''L'', CHR 0xE5, CHR 0x85,
      CHR 0x83, CHR 0xE7, CHR 0xB4, CHR 0xA0]"

definition dt_dl :: "element list \<Rightarrow> element list" where
  "dt_dl els = filter (\<lambda>el. tagName el = ''DT'' \<or> tagName el = ''DL'') els"

definition folder_item :: "string \<Rightarrow> string \<Rightarrow> string \<Rightarrow> string \<Rightarrow> jsval list \<Rightarrow> jsval" where
  "folder_item ident title folderPath currentPath content =
     Obj [(''type'', Str ''folder''), (''id'', Str ident), (''title'', Str title),
          (''path'', Str folderPath), (''parentPath'', Str currentPath),
          (''children'', Arr content)]"

text \<open>\<open>generate(title, url) || d\<close>, the two wrappers at the head of
  \<open>parseHTMLBookmarks\<close>.\<close>

definition or_default :: "error + jsval \<Rightarrow> jsval \<Rightarrow> error + jsval" where
  "or_default r d = (case r of Inl e \<Rightarrow> Inl e | Inr v \<Rightarrow> Inr (if truthy v then v else d))"

text \<open>The bookmark of a link entry: the \<open>HREF\<close> without backticks (the byte
  \<open>0x60\<close>) and trimmed, the date from \<open>ADD_DATE\<close> in seconds.\<close>

definition bookmark_item :: "platform \<Rightarrow> string \<Rightarrow> element \<Rightarrow> string \<Rightarrow> error + jsval" where
  "bookmark_item P ident firstChild currentPath =
     (let href = getAttribute firstChild ''HREF'';
          url = trim (filter (\<lambda>c. c \<noteq> CHR 0x60) (if truthy href then text_of href else []));
          title = trim (textContent firstChild);
          added = getAttribute firstChild ''ADD_DATE''
      in case (if truthy added
               then (case parse_int P (text_of added) of
                       None \<Rightarrow> Inr (Date None)
                     | Some n \<Rightarrow> new_Date P (Num (n * 1000)))
               else Inr (Date (Some (date_now P)))) of
           Inl e \<Rightarrow> Inl e
         | Inr date \<Rightarrow>
             (case or_default (generateDescription P (Str (textContent firstChild)) (Str url)) (Str []) of
                Inl e \<Rightarrow> Inl e
              | Inr description \<Rightarrow>
                  (case or_default (generateTags P (Str (textContent firstChild)) (Str url)) (Arr []) of
                     Inl e \<Rightarrow> Inl e
                   | Inr tags \<Rightarrow>
                       Inr (Obj [(''type'', Str ''bookmark''),
                                 (''id'', Str ident),
                                 (''title'', Str (if title \<noteq> [] then title else UNTITLED)),
                                 (''url'', Str url),
                                 (''folder'', Str (if currentPath \<noteq> [] then currentPath else ROOT_FOLDER)),
                                 (''path'', Str (if currentPath \<noteq> [] then currentPath @ ''/'' @ title
                                                 else title)),
                                 (''dateAdded'', date),
                                 (''description'', description),
                                 (''tags'', tags),
                                 (''domain'', extractDomain P (Str url))]))))"

lemma size_dt_dl: "size_list size (dt_dl els) \<le> size_list size els"
  unfolding dt_dl_def by (induction els) auto

text \<open>
  \<open>walk\<close> over the filtered children of a \<open>DL\<close>, with the loop index as the
  rest of the list: a folder entry whose next node is a \<open>DL\<close> takes it as its
  content and the loop goes on behind it (\<open>i++\<close>); a \<open>DL\<close> met otherwise
  is passed over.
\<close>

function walk :: "platform \<Rightarrow> string \<Rightarrow> element list \<Rightarrow> nat \<Rightarrow> error + jsval list \<times> nat" where
  "walk P currentPath [] k = Inr ([], k)"
| "walk P currentPath (node # nodes) k =
     (if tagName node = ''DT''
      then (case childElems node of
              [] \<Rightarrow> walk P currentPath nodes k
            | firstChild # others \<Rightarrow>
                if tagName firstChild = ''H3''
                then (let title = trim (textContent firstChild);
                          folderPath = (if currentPath \<noteq> [] then currentPath @ ''/'' @ title
                                        else title);
                          ident = fst (generateId P 8 k);
                          k1 = snd (generateId P 8 k)
                      in if nodes \<noteq> [] \<and> tagName (hd nodes) = ''DL''
                         then (case walk P folderPath (dt_dl (childElems (hd nodes))) k1 of
                                 Inl e \<Rightarrow> Inl e
                               | Inr r \<Rightarrow>
                                   (case walk P currentPath (tl nodes) (snd r) of
                                      Inl e \<Rightarrow> Inl e
                                    | Inr r' \<Rightarrow>
                                        Inr (folder_item ident title folderPath currentPath (fst r)
                                               # fst r', snd r')))
                         else (case walk P currentPath nodes k1 of
                                 Inl e \<Rightarrow> Inl e
                               | Inr r' \<Rightarrow>
                                   Inr (folder_item ident title folderPath currentPath []
                                          # fst r', snd r')))
                else if tagName firstChild = ''A''
                then (case bookmark_item P (fst (generateId P 8 k)) firstChild currentPath of
                        Inl e \<Rightarrow> Inl e
                      | Inr bookmark \<Rightarrow>
                          (case walk P currentPath nodes (snd (generateId P 8 k)) of
                             Inl e \<Rightarrow> Inl e
                           | Inr r' \<Rightarrow> Inr (bookmark # fst r', snd r')))
                else walk P currentPath nodes k)
      else walk P currentPath nodes k)"
  by pat_completeness auto
termination
proof (relation "measure (\<lambda>(P, cp, nodes, k). size_list size nodes)", goal_cases)
  case 1
  then show ?case by simp
next
  case (2 P currentPath node nodes k)
  then show ?case by simp
next
  case (3 P currentPath node nodes k firstChild others title folderPath ident k1)
  then have "nodes \<noteq> []" by simp
  then obtain n ns where ns: "nodes = n # ns" by (cases nodes) auto
  have "size_list size (dt_dl (childElems n)) \<le> size_list size (childElems n)" by (rule size_dt_dl)
  also have "\<dots> < size n" by (cases n) simp
  finally show ?case using ns by simp
next
  case (4 P currentPath node nodes k firstChild others title folderPath ident k1 r)
  then have "nodes \<noteq> []" by simp
  then obtain n ns where ns: "nodes = n # ns" by (cases nodes) auto
  then show ?case by simp
qed simp_all

text \<open>\<open>flatten\<close>: the two arrays, with a folder pushed before its children are
  gone through.\<close>

lemma size_folder_children:
  "field_of item ''type'' = Str ''folder'' \<Longrightarrow>
   size_list size (items (field_of item ''children'')) < size item"
proof (cases "field_of item ''children''")
  case (Arr cs)
  then have "field_of item ''children'' \<noteq> Undefined" by simp
  then have "get item ''children'' = Inr (Arr cs)"
    using Arr by (cases item) (auto simp: field_of_def)
  from size_children [OF this] Arr show ?thesis by (simp add: items_def)
qed (cases item; auto simp: items_def field_of_def)+

function flatten :: "jsval list \<Rightarrow> jsval list \<times> jsval list \<Rightarrow> jsval list \<times> jsval list" where
  "flatten [] out = out"
| "flatten (item # rest) out =
     (if field_of item ''type'' = Str ''bookmark''
      then flatten rest (fst out @ [item], snd out)
      else if field_of item ''type'' = Str ''folder''
      then flatten rest (flatten (items (field_of item ''children''))
                                 (fst out, snd out @ [item]))
      else flatten rest out)"
  by pat_completeness auto
termination
  by (relation "measure (\<lambda>(xs, out). size_list size xs)")
     (auto dest: size_folder_children)

record parsed_html = parsed +
  parsed_tree :: jsval

definition parseHTMLBookmarks :: "platform \<Rightarrow> element option \<Rightarrow> error + parsed_html" where
  "parseHTMLBookmarks P rootDL =
     (case rootDL of
        None \<Rightarrow> Inl (Error NO_ROOT_DL)
      | Some dl \<Rightarrow>
          (case walk P [] (dt_dl (childElems dl)) 0 of
             Inl e \<Rightarrow> Inl e
           | Inr r \<Rightarrow>
               Inr \<lparr>parsed_bookmarks = Arr (fst (flatten (fst r) ([], []))),
                    parsed_folders = Arr (snd (flatten (fst r) ([], []))),
                    parsed_tree = Arr (fst r)\<rparr>))"

section \<open>An example platform\<close>

text \<open>
  A platform to run the definitions on concrete inputs. Its \<open>url_hostname\<close>
  follows the URL standard on the inputs used below: the control characters and
  spaces at both ends of the input and the tabs and newlines inside it are
  removed; an input without a scheme has no base to resolve against and is
  refused; the host of a URL with an authority is what stands between the user
  information and the port, in lower case for the schemes of the web; a URL
  without an authority has the empty host. Percent escapes, internationalised
  names and IP addresses are not treated, and neither a port nor the characters
  of a host are validated.
  Its \<open>date_iso\<close> is the ISO format of the proleptic Gregorian calendar in UTC.
  Its clock stands at 2023-11-14T22:13:20.000Z. The remaining fields are not
  looked at by any instance below and have the simplest values: every date prints as
  an invalid one, nothing but a number or a date makes a valid date, and the
  message of an engine error is its name. Its \<open>parse_int\<close> reads a decimal
  numeral with an optional sign after white space (the prefix of a hexadecimal
  numeral is not treated), and its random draws are a fixed sequence. Its \<open>lower_case\<close> lowers the letters of ASCII and those of
  the Latin-1 supplement, U+00C0 to U+00DE without the multiplication sign (the
  bytes \<open>0xC3 0x80\<close> to \<open>0xC3 0x9E\<close>); the other scripts are not treated.
\<close>

definition is_c0_or_space :: "char \<Rightarrow> bool" where
  "is_c0_or_space c = ((of_char c :: nat) \<le> 32)"

definition url_input :: "string \<Rightarrow> string" where
  "url_input s =
     filter (\<lambda>c. c \<notin> set [CHR 0x09, CHR 0x0A, CHR 0x0D])
            (rev (dropWhile is_c0_or_space (rev (dropWhile is_c0_or_space s))))"

definition is_alpha :: "char \<Rightarrow> bool" where
  "is_alpha c = (let n = (of_char (lower_char c) :: nat) in 97 \<le> n \<and> n \<le> 122)"

definition is_scheme_char :: "char \<Rightarrow> bool" where
  "is_scheme_char c =
     (is_alpha c \<or> (let n = (of_char c :: nat) in (48 \<le> n \<and> n \<le> 57) \<or> n \<in> {43, 45, 46}))"

definition host_of :: "string \<Rightarrow> string" where
  "host_of s =
     (let authority = takeWhile (\<lambda>c. c \<notin> set [CHR ''/'', CHR 0x5C, CHR ''?'', CHR ''#'']) s;
          hostport = rev (takeWhile (\<lambda>c. c \<noteq> CHR ''@'') (rev authority))
      in takeWhile (\<lambda>c. c \<noteq> CHR '':'') hostport)"

definition example_hostname :: "string \<Rightarrow> string option" where
  "example_hostname s =
     (let input = url_input s;
          scheme = map lower_char (takeWhile (\<lambda>c. c \<noteq> CHR '':'') input);
          rest = drop (length scheme) input
      in case (scheme, rest) of
           (c # cs, colon # after) \<Rightarrow>
             if \<not> (is_alpha c \<and> list_all is_scheme_char cs) then None
             else if scheme \<in> set [''http'', ''https'', ''ftp'', ''ws'', ''wss'']
             then (let host = host_of (dropWhile (\<lambda>c. c = CHR ''/'' \<or> c = CHR 0x5C) after)
                   in if host = [] then None else Some (map lower_char host))
             else if starts_with after ''//'' then Some (host_of (drop 2 after))
             else Some []
         | _ \<Rightarrow> None)"

definition pad :: "nat \<Rightarrow> nat \<Rightarrow> string" where
  "pad w n = replicate (w - length (show_nat n)) (CHR ''0'') @ show_nat n"

definition example_iso :: "int \<Rightarrow> string" where
  "example_iso t =
     (let ms = t mod 86400000;
          z = t div 86400000 + 719468;
          era = z div 146097;
          doe = z mod 146097;
          yoe = (doe - doe div 1460 + doe div 36524 - doe div 146096) div 365;
          doy = doe - (365 * yoe + yoe div 4 - yoe div 100);
          mp = (5 * doy + 2) div 153;
          d = doy - (153 * mp + 2) div 5 + 1;
          m = (if mp < 10 then mp + 3 else mp - 9);
          y = yoe + era * 400 + (if m \<le> 2 then 1 else 0)
      in (if 0 \<le> y \<and> y \<le> 9999 then pad 4 (nat y)
          else (if y < 0 then ''-'' else ''+'') @ pad 6 (nat \<bar>y\<bar>))
         @ ''-'' @ pad 2 (nat m) @ ''-'' @ pad 2 (nat d)
         @ ''T'' @ pad 2 (nat (ms div 3600000))
         @ '':'' @ pad 2 (nat (ms mod 3600000 div 60000))
         @ '':'' @ pad 2 (nat (ms mod 60000 div 1000))
         @ ''.'' @ pad 3 (nat (ms mod 1000)) @ ''Z'')"

definition digit_value :: "char \<Rightarrow> int option" where
  "digit_value c =
     map_of [(CHR ''0'', 0), (CHR ''1'', 1), (CHR ''2'', 2), (CHR ''3'', 3), (CHR ''4'', 4),
             (CHR ''5'', 5), (CHR ''6'', 6), (CHR ''7'', 7), (CHR ''8'', 8), (CHR ''9'', 9)] c"

fun digits_value :: "int \<Rightarrow> string \<Rightarrow> int" where
  "digits_value n [] = n"
| "digits_value n (c # cs) =
     (case digit_value c of None \<Rightarrow> n | Some d \<Rightarrow> digits_value (10 * n + d) cs)"

definition example_parse_int :: "string \<Rightarrow> int option" where
  "example_parse_int s =
     (let t = strip WHITE_SPACE s;
          negative = (case t of c # r \<Rightarrow> c = CHR ''-'' | [] \<Rightarrow> False);
          unsigned = (case t of
                        c # r \<Rightarrow> if c = CHR ''-'' \<or> c = CHR ''+'' then r else t
                      | [] \<Rightarrow> [])
      in case unsigned of
           [] \<Rightarrow> None
         | c # r \<Rightarrow> if digit_value c = None then None
                    else Some (if negative then - digits_value 0 unsigned
                               else digits_value 0 unsigned))"

fun example_lower :: "string \<Rightarrow> string" where
  "example_lower [] = []"
| "example_lower [c] = [lower_char c]"
| "example_lower (c # d # s) =
     (if c = CHR 0xC3 \<and> (let n = (of_char d :: nat) in 128 \<le> n \<and> n \<le> 158 \<and> n \<noteq> 151)
      then c # char_of ((of_char d :: nat) + 32) # example_lower s
      else lower_char c # example_lower (d # s))"

definition example_platform :: platform where
  "example_platform =
     \<lparr>url_hostname = example_hostname,
      date_now = 1700000000000,
      date_iso = example_iso,
      date_string = (\<lambda>d. ''Invalid Date''),
      date_value = (\<lambda>v. Inr None),
      engine_message = (\<lambda>e. case e of TypeError \<Rightarrow> ''TypeError''
                                     | SyntaxError \<Rightarrow> ''SyntaxError''
                                     | Error m \<Rightarrow> m),
      parse_int = example_parse_int,
      random_draw = (\<lambda>j. (17 * j + 5) mod 62),
      lower_case = example_lower\<rparr>"

definition empty_api :: api where
  "empty_api = \<lparr>bookmarks = [], folders = Arr [], isSupported = False\<rparr>"

section \<open>Notions the properties are stated with\<close>

text \<open>
  A bookmark as the data model describes it has strings for its title, url,
  description and folder and an array of strings for its tags: \<open>well_formed\<close>.
  \<open>searchable\<close> asks less of the tags: that they are an array.
\<close>

definition is_str :: "jsval \<Rightarrow> bool" where
  "is_str v = (case v of Str s \<Rightarrow> True | _ \<Rightarrow> False)"

definition searchable :: "jsval \<Rightarrow> bool" where
  "searchable b =
     (is_str (field_of b ''title'') \<and> is_str (field_of b ''url'') \<and>
      is_str (field_of b ''description'') \<and> is_str (field_of b ''folder'') \<and>
      isArray (field_of b ''tags''))"

definition well_formed :: "jsval \<Rightarrow> bool" where
  "well_formed b = (searchable b \<and> list_all is_str (items (field_of b ''tags'')))"

text \<open>The search of the specification, in its words: the term is contained in the
  lower-cased title, url, description or folder, or in one lower-cased tag.\<close>

definition contains_keyword :: "platform \<Rightarrow> string \<Rightarrow> jsval \<Rightarrow> bool" where
  "contains_keyword P t b =
     (str_includes (toLowerCase P (text_of (field_of b ''title''))) t \<or>
      str_includes (toLowerCase P (text_of (field_of b ''url''))) t \<or>
      str_includes (toLowerCase P (text_of (field_of b ''description''))) t \<or>
      str_includes (toLowerCase P (text_of (field_of b ''folder''))) t \<or>
      list_ex (\<lambda>tag. str_includes (toLowerCase P (text_of tag)) t) (items (field_of b ''tags'')))"

text \<open>The three filters as predicates on a bookmark; an empty argument lets every
  bookmark through.\<close>

definition search_pred :: "platform \<Rightarrow> string \<Rightarrow> jsval \<Rightarrow> bool" where
  "search_pred P kw =
     (if trim kw = [] then (\<lambda>b. True) else contains_keyword P (trim (toLowerCase P kw)))"

definition folder_pred :: "string \<Rightarrow> jsval \<Rightarrow> bool" where
  "folder_pred name =
     (if name = [] then (\<lambda>b. True) else (\<lambda>b. field_of b ''folder'' = Str name))"

definition tag_pred :: "string \<Rightarrow> jsval \<Rightarrow> bool" where
  "tag_pred tag =
     (if tag = [] then (\<lambda>b. True) else (\<lambda>b. Str tag \<in> set (items (field_of b ''tags''))))"

text \<open>Feeding the result of one call into the next; a throw of the first ends the
  chain.\<close>

definition and_then :: "error + 'a \<Rightarrow> ('a \<Rightarrow> error + 'b) \<Rightarrow> error + 'b" where
  "and_then m f = (case m of Inl e \<Rightarrow> Inl e | Inr x \<Rightarrow> f x)"

text \<open>The shape the three operations share: return the target as it is, or filter
  it.\<close>

definition filter_op :: "api \<Rightarrow> bool \<Rightarrow> (jsval \<Rightarrow> error + bool) \<Rightarrow> jsval \<Rightarrow> error + jsval" where
  "filter_op a idle p c = (if idle then Inr (target a c) else js_filter p (target a c))"

text \<open>The number of bytes of the lower-cased strings in a value: a keyword longer
  than that occurs in none of them.\<close>

fun weight :: "platform \<Rightarrow> jsval \<Rightarrow> nat" where
  "weight P (Str s) = length (toLowerCase P s)"
| "weight P (Arr xs) = sum_list (map (weight P) xs)"
| "weight P (Obj kvs) = sum_list (map (\<lambda>kv. weight P (snd kv)) kvs)"
| "weight P v = 0"

subsection \<open>Sample data\<close>

definition github_bookmark :: jsval where
  "github_bookmark =
     Obj [(''id'', Str ''1''), (''title'', Str ''GitHub''), (''url'', Str ''https://github.com''),
          (''folder'', Str ''Work''), (''description'', Str ''code hosting''),
          (''tags'', Arr [Str ''dev'']), (''domain'', Str ''github.com'')]"

definition mdn_bookmark :: jsval where
  "mdn_bookmark =
     Obj [(''id'', Str ''2''), (''title'', Str ''MDN Web Docs''),
          (''url'', Str ''https://developer.mozilla.org''),
          (''folder'', Str ''Docs''), (''description'', Str ''web documentation''),
          (''tags'', Arr [Str ''docs'', Str ''dev'']), (''domain'', Str ''developer.mozilla.org'')]"

text \<open>An export file written by hand, with a bookmark that has neither a
  description nor tags: \<open>{"bookmarks": [{"title": "GitHub", "url":
  "https://github.com"}]}\<close>.\<close>

definition partial_export :: jtext where
  "partial_export =
     JSON (JObj [(''bookmarks'',
                  JArr [JObj [(''title'', JStr ''GitHub''), (''url'', JStr ''https://github.com'')]])])"

text \<open>The list of the first occurrences of the elements of a list, in their order.\<close>

definition firsts :: "'a list \<Rightarrow> 'a list" where
  "firsts xs = [xs ! i. i \<leftarrow> [0..<length xs], xs ! i \<notin> set (take i xs)]"








section \<open>Notions for the parsers\<close>

text \<open>
  What normalisation promises of a bookmark: tags without duplicates
  (\<open>tags_distinct\<close>), a domain that is the safe extraction from its url
  (\<open>domain_extracted\<close>), and a folder that is the root label or the path of a
  folder of the list (\<open>folder_known\<close>).
\<close>

definition paths :: "jsval list \<Rightarrow> jsval set" where
  "paths fs = (\<lambda>f. field_of f ''path'') ` set fs"

definition tags_distinct :: "jsval \<Rightarrow> bool" where
  "tags_distinct b = (isArray (field_of b ''tags'') \<and> distinct (items (field_of b ''tags'')))"

definition domain_extracted :: "platform \<Rightarrow> jsval \<Rightarrow> bool" where
  "domain_extracted P b = (field_of b ''domain'' = extractDomain P (field_of b ''url''))"

definition folder_known :: "jsval list \<Rightarrow> jsval \<Rightarrow> bool" where
  "folder_known fs b =
     (field_of b ''folder'' = Str ROOT_FOLDER \<or> field_of b ''folder'' \<in> paths fs)"

text \<open>
  The native-tree parser makes no folder for a container whose title is falsy or
  one of the two fixed titles, and still hands the path it computed for the
  container down to the children. \<open>pseudo_root_paths P parentPath nodes\<close> lists
  these paths, where they are truthy (a falsy one is no bookmark's folder), in
  the order of the traversal of \<open>nodes\<close> under \<open>parentPath\<close>.
\<close>

function pseudo_root_paths :: "platform \<Rightarrow> jsval \<Rightarrow> jsval list \<Rightarrow> jsval list"
  and pseudo_root_path :: "platform \<Rightarrow> jsval \<Rightarrow> jsval \<Rightarrow> jsval list" where
  "pseudo_root_paths P parentPath [] = []"
| "pseudo_root_paths P parentPath (node # nodes) =
     pseudo_root_path P parentPath node @ pseudo_root_paths P parentPath nodes"
| "pseudo_root_path P parentPath node =
     (case get node ''children'' of
        Inl e \<Rightarrow> []
      | Inr children \<Rightarrow>
          (case children of
             Arr cs \<Rightarrow>
               (case folder_path P parentPath (field_of node ''title'') of
                  Inl e \<Rightarrow> []
                | Inr folderPath \<Rightarrow>
                    (if (truthy (field_of node ''title'')
                         \<and> field_of node ''title'' \<noteq> Str BOOKMARKS_BAR
                         \<and> field_of node ''title'' \<noteq> Str OTHER_BOOKMARKS)
                        \<or> \<not> truthy folderPath
                     then [] else [folderPath])
                    @ pseudo_root_paths P (if folderPath = Undefined then Str [] else folderPath) cs)
           | _ \<Rightarrow> []))"
  by pat_completeness auto
termination
  by (relation "measure (\<lambda>x. case x of
                   Inl (P, pp, nodes) \<Rightarrow> 2 * size_list size nodes
                 | Inr (P, pp, node) \<Rightarrow> 2 * size node + 1)")
     (auto dest: size_children)

text \<open>The folder of every bookmark made so far is the root label, the path of a
  folder made so far, or one of the paths \<open>S\<close>.\<close>

definition placed :: "jsval set \<Rightarrow> acc \<Rightarrow> bool" where
  "placed S st =
     (\<forall>b\<in>set (acc_bookmarks st).
        folder_known (acc_folders st) b \<or> field_of b ''folder'' \<in> S)"

text \<open>Every folder is in the map, and the keys of the map stand in the order in which
  the folders were made: so it is as long as no id is set twice.\<close>

definition creation_order :: "acc \<Rightarrow> bool" where
  "creation_order st = (map snd (folderMap st) = [0..<length (acc_folders st)])"

text \<open>A tree of items as \<open>walk\<close> builds it under the path \<open>cp\<close>: every
  bookmark, at every depth, has the property \<open>G\<close> and the path of the folder item
  it lies in as its folder, or the root label when that path is empty.\<close>

inductive items_ok :: "(jsval \<Rightarrow> bool) \<Rightarrow> string \<Rightarrow> jsval list \<Rightarrow> bool" for G where
  empty: "items_ok G cp []"
| bookmark: "field_of b ''type'' = Str ''bookmark'' \<Longrightarrow> G b
             \<Longrightarrow> field_of b ''folder'' = Str (if cp \<noteq> [] then cp else ROOT_FOLDER)
             \<Longrightarrow> items_ok G cp rest \<Longrightarrow> items_ok G cp (b # rest)"
| folder: "field_of f ''type'' = Str ''folder'' \<Longrightarrow> field_of f ''path'' = Str fp
           \<Longrightarrow> items_ok G fp (items (field_of f ''children''))
           \<Longrightarrow> items_ok G cp rest \<Longrightarrow> items_ok G cp (f # rest)"

text \<open>What the markup parser promises of a bookmark.\<close>

definition link_ok :: "platform \<Rightarrow> jsval \<Rightarrow> bool" where
  "link_ok P b = (tags_distinct b \<and> is_str (field_of b ''url'') \<and> domain_extracted P b)"

subsection \<open>Sample trees\<close>

definition leaf :: "string \<Rightarrow> string \<Rightarrow> string \<Rightarrow> jsval" where
  "leaf ident title url = Obj [(''id'', Str ident), (''title'', Str title), (''url'', Str url)]"

definition container :: "string \<Rightarrow> string \<Rightarrow> jsval list \<Rightarrow> jsval" where
  "container ident title cs = Obj [(''id'', Str ident), (''title'', Str title), (''children'', Arr cs)]"

text \<open>Two sibling folders of the same title, each with one bookmark; the accumulator
  after both folders were made; and the bookmark of the second leaf.\<close>

definition twins_tree :: jsval where
  "twins_tree =
     Arr [container ''1'' ''A'' [leaf ''2'' ''one'' ''https://a.example/''],
          container ''3'' ''A'' [leaf ''4'' ''two'' ''https://b.example/'']]"

definition twins_acc :: acc where
  "twins_acc =
     add_folder (container ''3'' ''A'' []) (Str ''A'') (Str [])
       (add_folder (container ''1'' ''A'' []) (Str ''A'') (Str []) empty_acc)"

definition two_bookmark :: jsval where
  "two_bookmark =
     Obj [(''id'', Str ''4''), (''title'', Str ''two''), (''url'', Str ''https://b.example/''),
          (''folder'', Str ''A''), (''dateAdded'', Date (Some 1700000000000)),
          (''description'', Str (DESCRIPTION_PREFIX @ ''b.example'' @ DESCRIPTION_SUFFIX)),
          (''tags'', Arr []), (''domain'', Str ''b.example'')]"

text \<open>A root without a title, as the browser's tree has it, over a bookmark and a
  folder; a root with an empty title over the bookmarks bar, which holds a
  bookmark and a folder with a bookmark; and a tree of one mail link.\<close>

definition untitled_root :: jsval where
  "untitled_root =
     Obj [(''id'', Str ''0''),
          (''children'', Arr [leaf ''2'' ''one'' ''https://a.example/'',
                              container ''5'' ''Docs'' [leaf ''6'' ''two'' ''https://b.example/'']])]"

definition bar_tree :: jsval where
  "bar_tree =
     Arr [Obj [(''id'', Str ''0''), (''title'', Str []),
               (''children'',
                Arr [container ''1'' BOOKMARKS_BAR
                       [leaf ''2'' ''one'' ''https://a.example/'',
                        container ''3'' ''Work'' [leaf ''4'' ''two'' ''https://b.example/'']]])]]"

definition mail_tree :: jsval where
  "mail_tree = Arr [leaf ''1'' ''Mail'' ''mailto:someone@example.com'']"

text \<open>A tree of one leaf whose url is no string but the array \<open>["x"]\<close>.\<close>

definition array_url_tree :: jsval where
  "array_url_tree = Arr [Obj [(''id'', Str ''1''), (''title'', Str ''T''), (''url'', Arr [Str ''x''])]]"

text \<open>An export file whose bookmark has an empty domain, a tag written twice and a
  folder that no folder of the file has.\<close>

definition tagged_export :: jtext where
  "tagged_export =
     JSON (JObj [(''bookmarks'',
                  JArr [JObj [(''title'', JStr ''x''), (''domain'', JStr ''''),
                              (''tags'', JArr [JStr ''a'', JStr ''a'']),
                              (''folder'', JStr ''nowhere'')]])])"

text \<open>A \<open>DL\<close> element with a folder entry \<open>Work\<close> and, as the next sibling of
  the entry, the \<open>DL\<close> of its content: one link with an \<open>HREF\<close> and an
  \<open>ADD_DATE\<close>. And a \<open>DL\<close> element with one link that has no \<open>HREF\<close>.\<close>

definition work_export :: element where
  "work_export =
     Element ''DL'' []
       [Element ''DT'' [] [Element ''H3'' [] [] ''Work''] ''Work'',
        Element ''DL'' []
          [Element ''DT'' []
             [Element ''A'' [(''href'', ''https://github.com/x''), (''add_date'', ''86400'')] [] ''Repo docs'']
             ''Repo'']
          ''Repo'']
       ''Work Repo''"

definition bare_link :: element where
  "bare_link =
     Element ''DL'' [] [Element ''DT'' [] [Element ''A'' [] [] ''Somewhere''] ''Somewhere''] ''Somewhere''"

section \<open>Import and export: properties\<close>

text \<open>
  Claim C4. Importing a JSON text whose \<open>bookmarks\<close> is there but is no array, as
  in \<open>{"bookmarks": "not-an-array"}\<close>, returns the failure object with the message
  of the invalid format, and the instance keeps the bookmarks and folders it had.
  The theorem covers every document whose parsed value gives a non-array on reading
  \<open>bookmarks\<close>, the absent key included.
\<close>

theorem import_non_array_fails:
  assumes "get (of_json j) ''bookmarks'' = Inr b" and "\<not> isArray b"
  shows "importBookmarks P a (JSON j) =
           (Obj [(''success'', Bool False), (''error'', Str INVALID_FORMAT)], a)"
  using assms
  by (simp add: importBookmarks_def import_try_def JSON_parse_def failure_def message_def)

theorem import_non_array_fails_witness:
  "get (of_json (JObj [(''bookmarks'', JStr ''not-an-array'')])) ''bookmarks''
     = Inr (Str ''not-an-array'')
   \<and> \<not> isArray (Str ''not-an-array'')
   \<and> importBookmarks example_platform
        \<lparr>bookmarks = [Obj [(''title'', Str ''kept'')]], folders = Arr [], isSupported = False\<rparr>
        (JSON (JObj [(''bookmarks'', JStr ''not-an-array'')]))
     = (Obj [(''success'', Bool False), (''error'', Str INVALID_FORMAT)],
        \<lparr>bookmarks = [Obj [(''title'', Str ''kept'')]], folders = Arr [], isSupported = False\<rparr>)"
proof -
  have g: "get (of_json (JObj [(''bookmarks'', JStr ''not-an-array'')])) ''bookmarks''
             = Inr (Str ''not-an-array'')"
    by (simp add: define_all_def)
  have n: "\<not> isArray (Str ''not-an-array'')"
    by (simp add: isArray_def)
  show ?thesis
    using g n import_non_array_fails [OF g n] by simp
qed

section \<open>The codec: round trip\<close>











section \<open>Query engine: properties\<close>

lemma str_includes_iff: "str_includes s t \<longleftrightarrow> (\<exists>p q. s = p @ t @ q)"
proof (induction s)
  case Nil
  then show ?case by simp
next
  case (Cons c s)
  show ?case
  proof
    assume "str_includes (c # s) t"
    then consider "starts_with (c # s) t" | "str_includes s t" by auto
    then show "\<exists>p q. c # s = p @ t @ q"
    proof cases
      case 1
      then obtain q where "c # s = t @ q" by (auto simp: starts_with_iff)
      then have "c # s = [] @ t @ q" by simp
      then show ?thesis by blast
    next
      case 2
      with Cons obtain p q where "s = p @ t @ q" by auto
      then have "c # s = (c # p) @ t @ q" by simp
      then show ?thesis by blast
    qed
  next
    assume "\<exists>p q. c # s = p @ t @ q"
    then obtain p q where pq: "c # s = p @ t @ q" by blast
    show "str_includes (c # s) t"
    proof (cases p)
      case Nil
      with pq have "starts_with (c # s) t" by (auto simp: starts_with_iff)
      then show ?thesis by simp
    next
      case (Cons d p')
      with pq have "s = p' @ t @ q" by simp
      with Cons.IH have "str_includes s t" by blast
      then show ?thesis by simp
    qed
  qed
qed

lemma str_includes_length: "str_includes s t \<Longrightarrow> length t \<le> length s"
  by (auto simp: str_includes_iff)

lemma starts_with_Nil: "starts_with [] w \<longleftrightarrow> w = []"
  by (cases w) simp_all

lemma strip_none: "\<forall>w\<in>set ws. \<not> starts_with s w \<Longrightarrow> strip ws s = s"
proof -
  assume "\<forall>w\<in>set ws. \<not> starts_with s w"
  then have "List.find (starts_with s) ws = None" by (simp add: find_None_iff)
  then show ?thesis by (subst strip.simps) simp
qed

lemma strip_empty: "strip ws [] = []"
  by (subst strip.simps) (auto split: option.splits simp: find_Some_iff starts_with_Nil)

lemma trim_empty: "trim [] = []"
  by (simp add: trim_def strip_empty)

lemma filter_list_pure:
  "\<forall>x\<in>set xs. p x = Inr (q x) \<Longrightarrow> filter_list p xs = Inr (filter q xs)"
  by (induction xs) auto

lemma is_strE: "is_str v \<Longrightarrow> \<exists>s. v = Str s"
  by (cases v) (auto simp: is_str_def)

lemma isArrayE: "isArray v \<Longrightarrow> \<exists>xs. v = Arr xs"
  by (cases v) (auto simp: isArray_def)

lemma get_field_of: "get b k = Inr v \<Longrightarrow> field_of b k = v"
  by (simp add: field_of_def)

lemma field_of_defined: "field_of b k \<noteq> Undefined \<Longrightarrow> get b k = Inr (field_of b k)"
  by (cases b) (auto simp: field_of_def)

lemma field_includes_str:
  "is_str (field_of b k) \<Longrightarrow>
   field_includes P b k t = Inr (str_includes (toLowerCase P (text_of (field_of b k))) t)"
proof -
  assume "is_str (field_of b k)"
  then obtain s where s: "field_of b k = Str s" by (auto dest: is_strE)
  then have "get b k = Inr (Str s)" using field_of_defined [of b k] by simp
  with s show ?thesis by (simp add: field_includes_def text_of_def)
qed

lemma some_tag_pure:
  "list_all is_str ts \<Longrightarrow>
   some_tag P t ts = Inr (list_ex (\<lambda>tag. str_includes (toLowerCase P (text_of tag)) t) ts)"
proof (induction ts)
  case Nil
  then show ?case by simp
next
  case (Cons x ts)
  then obtain s where "x = Str s" by (auto dest: is_strE)
  with Cons show ?case by (simp add: text_of_def)
qed

lemma tags_some_pure:
  assumes "isArray (field_of b ''tags'')" "list_all is_str (items (field_of b ''tags''))"
  shows "tags_some P b t =
         Inr (list_ex (\<lambda>tag. str_includes (toLowerCase P (text_of tag)) t) (items (field_of b ''tags'')))"
proof -
  from assms(1) obtain ts where ts: "field_of b ''tags'' = Arr ts" by (auto dest: isArrayE)
  then have "get b ''tags'' = Inr (Arr ts)" using field_of_defined [of b "''tags''"] by simp
  with ts assms(2) show ?thesis by (simp add: tags_some_def items_def some_tag_pure)
qed

lemma matches_pure: "well_formed b \<Longrightarrow> matches P t b = Inr (contains_keyword P t b)"
  by (simp add: matches_def well_formed_def searchable_def field_includes_str tags_some_pure
      contains_keyword_def or_else_def)

lemma search_pure:
  assumes "\<forall>b\<in>set bs. well_formed b" "trim kw \<noteq> []"
  shows "searchBookmarks P a kw (Arr bs) = Inr (Arr (filter (contains_keyword P (trim (toLowerCase P kw))) bs))"
proof -
  have "kw \<noteq> []" using assms(2) by (auto simp: trim_empty)
  moreover have "filter_list (matches P (trim (toLowerCase P kw))) bs
        = Inr (filter (contains_keyword P (trim (toLowerCase P kw))) bs)"
    using assms(1) by (intro filter_list_pure) (simp add: matches_pure)
  ultimately show ?thesis using assms(2)
    by (simp add: searchBookmarks_def target_def js_filter_def)
qed

lemma search_blank: "trim kw = [] \<Longrightarrow> searchBookmarks P a kw c = Inr (target a c)"
  by (simp add: searchBookmarks_def)

lemma well_formed_filter: "\<forall>b\<in>set bs. well_formed b \<Longrightarrow> \<forall>b\<in>set (filter p bs). well_formed b"
  by simp

lemma search_filter:
  "\<forall>b\<in>set bs. well_formed b \<Longrightarrow> searchBookmarks P a kw (Arr bs) = Inr (Arr (filter (search_pred P kw) bs))"
  by (cases "trim kw = []") (simp_all add: search_pred_def search_blank target_def search_pure)

lemma folder_is_pure: "well_formed b \<Longrightarrow> folder_is name b = Inr (field_of b ''folder'' = Str name)"
proof -
  assume "well_formed b"
  then obtain s where s: "field_of b ''folder'' = Str s"
    by (auto simp: well_formed_def searchable_def dest: is_strE)
  then have "get b ''folder'' = Inr (Str s)" using field_of_defined [of b "''folder''"] by simp
  with s show ?thesis by (simp add: folder_is_def)
qed

lemma folder_filter:
  assumes "\<forall>b\<in>set bs. well_formed b"
  shows "filterByFolder a name (Arr bs) = Inr (Arr (filter (folder_pred name) bs))"
proof (cases "name = []")
  case True
  then show ?thesis by (simp add: filterByFolder_def target_def folder_pred_def)
next
  case False
  have "filter_list (folder_is name) bs = Inr (filter (\<lambda>b. field_of b ''folder'' = Str name) bs)"
    using assms by (intro filter_list_pure) (simp add: folder_is_pure)
  with False show ?thesis
    by (simp add: filterByFolder_def target_def folder_pred_def js_filter_def)
qed

lemma tags_include_pure:
  "well_formed b \<Longrightarrow> tags_include tag b = Inr (Str tag \<in> set (items (field_of b ''tags'')))"
proof -
  assume "well_formed b"
  then obtain ts where ts: "field_of b ''tags'' = Arr ts"
    by (auto simp: well_formed_def searchable_def dest: isArrayE)
  then have "get b ''tags'' = Inr (Arr ts)" using field_of_defined [of b "''tags''"] by simp
  with ts show ?thesis by (simp add: tags_include_def items_def)
qed

lemma tag_filter:
  assumes "\<forall>b\<in>set bs. well_formed b"
  shows "filterByTag a tag (Arr bs) = Inr (Arr (filter (tag_pred tag) bs))"
proof (cases "tag = []")
  case True
  then show ?thesis by (simp add: filterByTag_def target_def tag_pred_def)
next
  case False
  have "filter_list (tags_include tag) bs = Inr (filter (\<lambda>b. Str tag \<in> set (items (field_of b ''tags''))) bs)"
    using assms by (intro filter_list_pure) (simp add: tags_include_pure)
  with False show ?thesis
    by (simp add: filterByTag_def target_def tag_pred_def js_filter_def)
qed

lemma weight_field: "field_of b k = Str s \<Longrightarrow> length (toLowerCase P s) \<le> weight P b"
proof (cases b)
  case (Obj kvs)
  assume "field_of b k = Str s"
  with Obj have "map_of kvs k = Some (Str s)"
    by (auto simp: field_of_def split: option.splits)
  then have "(k, Str s) \<in> set kvs" by (rule map_of_SomeD)
  then have "weight P (snd (k, Str s)) \<le> sum_list (map (\<lambda>kv. weight P (snd kv)) kvs)"
    by (intro member_le_sum_list) force+
  with Obj show ?thesis by simp
qed (auto simp: field_of_def)

lemma weight_member: "b \<in> set bs \<Longrightarrow> weight P b \<le> sum_list (map (weight P) bs)"
  by (intro member_le_sum_list) auto

lemma field_includes_Inr:
  assumes "field_includes P b k t = Inr x"
  shows "is_str (field_of b k) \<and> (weight P b < length t \<longrightarrow> \<not> x)"
proof -
  from assms obtain s where g: "get b k = Inr (Str s)" and x: "x = str_includes (toLowerCase P s) t"
    by (auto simp: field_includes_def split: sum.splits jsval.splits)
  from g have f: "field_of b k = Str s" by (rule get_field_of)
  have "x \<Longrightarrow> length t \<le> weight P b"
    using x str_includes_length [of "toLowerCase P s" t] weight_field [OF f, of P] by simp
  with f show ?thesis by (auto simp: is_str_def)
qed

lemma tags_some_Inr: "tags_some P b t = Inr x \<Longrightarrow> isArray (field_of b ''tags'')"
  by (auto simp: tags_some_def isArray_def field_of_def split: sum.splits jsval.splits)

lemma or_else_Inr:
  "or_else x y = Inr r \<Longrightarrow> \<exists>v. x = Inr v \<and> (\<not> v \<longrightarrow> y = Inr r)"
  by (auto simp: or_else_def split: sum.splits if_splits)

lemma matches_Inr:
  assumes "matches P t b = Inr r" and "weight P b < length t"
  shows "searchable b"
proof -
  from assms(1) obtain v1 where 1: "field_includes P b ''title'' t = Inr v1"
    and n1: "\<not> v1 \<longrightarrow> or_else (field_includes P b ''url'' t)
          (or_else (field_includes P b ''description'' t)
          (or_else (field_includes P b ''folder'' t) (tags_some P b t))) = Inr r"
    unfolding matches_def by (blast dest: or_else_Inr)
  from field_includes_Inr [OF 1] assms(2) have s1: "is_str (field_of b ''title'')" and "\<not> v1" by auto
  with n1 obtain v2 where 2: "field_includes P b ''url'' t = Inr v2"
    and n2: "\<not> v2 \<longrightarrow> or_else (field_includes P b ''description'' t)
          (or_else (field_includes P b ''folder'' t) (tags_some P b t)) = Inr r"
    by (blast dest: or_else_Inr)
  from field_includes_Inr [OF 2] assms(2) have s2: "is_str (field_of b ''url'')" and "\<not> v2" by auto
  with n2 obtain v3 where 3: "field_includes P b ''description'' t = Inr v3"
    and n3: "\<not> v3 \<longrightarrow> or_else (field_includes P b ''folder'' t) (tags_some P b t) = Inr r"
    by (blast dest: or_else_Inr)
  from field_includes_Inr [OF 3] assms(2) have s3: "is_str (field_of b ''description'')" and "\<not> v3" by auto
  with n3 obtain v4 where 4: "field_includes P b ''folder'' t = Inr v4"
    and n4: "\<not> v4 \<longrightarrow> tags_some P b t = Inr r"
    by (blast dest: or_else_Inr)
  from field_includes_Inr [OF 4] assms(2) have s4: "is_str (field_of b ''folder'')" and "\<not> v4" by auto
  with n4 have "isArray (field_of b ''tags'')" by (auto dest: tags_some_Inr)
  with s1 s2 s3 s4 show ?thesis by (simp add: searchable_def)
qed

lemma filter_list_Inr: "filter_list p xs = Inr ys \<Longrightarrow> x \<in> set xs \<Longrightarrow> \<exists>r. p x = Inr r"
  by (induction xs arbitrary: ys) (auto split: sum.splits)

lemma starts_with_hd: "starts_with s w \<Longrightarrow> w \<noteq> [] \<Longrightarrow> s \<noteq> [] \<and> hd s = hd w"
  by (cases s; cases w) simp_all

lemma no_white_letter:
  "list_all (\<lambda>w. w \<noteq> [] \<and> hd w \<noteq> CHR ''a'' \<and> hd (rev w) \<noteq> CHR ''a'') WHITE_SPACE"
  by code_simp

lemma strip_letters:
  assumes "\<forall>w\<in>set ws. w \<noteq> [] \<and> hd w \<noteq> CHR ''a''"
  shows "strip ws (replicate n (CHR ''a'')) = replicate n (CHR ''a'')"
proof (rule strip_none, rule ballI)
  fix w assume w: "w \<in> set ws"
  show "\<not> starts_with (replicate n (CHR ''a'')) w"
  proof
    assume "starts_with (replicate n (CHR ''a'')) w"
    from starts_with_hd [OF this] w assms
    have "replicate n (CHR ''a'') \<noteq> []" "hd (replicate n (CHR ''a'')) = hd w" by auto
    then have "hd w = CHR ''a''" by (cases n) auto
    with w assms show False by blast
  qed
qed

lemma trim_letters: "trim (replicate n (CHR ''a'')) = replicate n (CHR ''a'')"
proof -
  have 1: "\<forall>w\<in>set WHITE_SPACE. w \<noteq> [] \<and> hd w \<noteq> CHR ''a''"
    using no_white_letter by (simp add: list_all_iff)
  have 2: "\<forall>w\<in>set (map rev WHITE_SPACE). w \<noteq> [] \<and> hd w \<noteq> CHR ''a''"
    using no_white_letter by (auto simp: list_all_iff)
  show ?thesis
    unfolding trim_def strip_letters [OF 1] rev_replicate strip_letters [OF 2] by simp
qed

lemma lower_letters: "toLowerCase P (replicate n (CHR ''a'')) = replicate n (CHR ''a'')"
  by (simp add: toLowerCase_def lower_char_def is_ascii_def list_all_iff)

lemma search_total_searchable:
  assumes "\<forall>kw. trim kw \<noteq> [] \<longrightarrow> (\<exists>r. searchBookmarks P a kw (Arr bs) = Inr r)"
  shows "\<forall>b\<in>set bs. searchable b"
proof
  fix b assume b: "b \<in> set bs"
  define kw where "kw = replicate (Suc (sum_list (map (weight P) bs))) (CHR ''a'')"
  have t: "trim kw = kw" and l: "toLowerCase P kw = kw"
    unfolding kw_def by (rule trim_letters, rule lower_letters)
  have ne: "kw \<noteq> []" by (simp add: kw_def)
  have "trim kw \<noteq> []" using t ne by simp
  then obtain r where "searchBookmarks P a kw (Arr bs) = Inr r" using assms by blast
  with t l ne obtain ys where "filter_list (matches P kw) bs = Inr ys"
    by (auto simp: searchBookmarks_def target_def js_filter_def split: sum.splits)
  from filter_list_Inr [OF this b] obtain x where "matches P kw b = Inr x" by blast
  moreover have "weight P b < length kw" using weight_member [OF b, of P] by (simp add: kw_def)
  ultimately show "searchable b" by (rule matches_Inr)
qed

lemma samples_well_formed: "well_formed github_bookmark" "well_formed mdn_bookmark"
  by code_simp+

lemma sample_hits:
  "contains_keyword example_platform ''git'' github_bookmark"
  "\<not> contains_keyword example_platform ''git'' mdn_bookmark"
  by code_simp+

lemma trim_git:
  "trim (toLowerCase example_platform '' Git '') = ''git''"
  "trim '' Git '' \<noteq> []"
  "trim ''   '' = []"
  "trim [CHR 0xE3, CHR 0x80, CHR 0x80, CHR 0x20, CHR 0xC2, CHR 0xA0] = []"
  by code_simp+

lemma filter_list_result:
  "filter_list p xs = Inr ys \<Longrightarrow> ys = filter (\<lambda>x. p x = Inr True) xs"
  by (induction xs arbitrary: ys) (auto split: sum.splits)

lemma js_filter_Inr: "js_filter p c = Inr r \<Longrightarrow> \<exists>xs ys. c = Arr xs \<and> filter_list p xs = Inr ys \<and> r = Arr ys"
  by (auto simp: js_filter_def split: jsval.splits sum.splits)

lemma search_op: "searchBookmarks P a kw c = filter_op a (trim kw = []) (matches P (trim (toLowerCase P kw))) c"
  by (auto simp: searchBookmarks_def filter_op_def Let_def trim_empty)

lemma folder_op: "filterByFolder a name c = filter_op a (name = []) (folder_is name) c"
  by (simp add: filterByFolder_def filter_op_def Let_def)

lemma tag_op: "filterByTag a tag c = filter_op a (tag = []) (tags_include tag) c"
  by (simp add: filterByTag_def filter_op_def Let_def)

lemma search_returns:
  assumes "trim kw \<noteq> []" and "searchBookmarks P a kw c = Inr r"
  shows "\<exists>xs. target a c = Arr xs
           \<and> r = Arr (filter (\<lambda>b. matches P (trim (toLowerCase P kw)) b = Inr True) xs)"
proof -
  from assms have "js_filter (matches P (trim (toLowerCase P kw))) (target a c) = Inr r"
    by (simp add: search_op filter_op_def)
  from js_filter_Inr [OF this] obtain xs ys where "target a c = Arr xs"
    and "filter_list (matches P (trim (toLowerCase P kw))) xs = Inr ys" and "r = Arr ys"
    by blast
  with filter_list_result [of "matches P (trim (toLowerCase P kw))" xs ys] show ?thesis by simp
qed

text \<open>
  Claim C5, as amended. With a keyword that is empty or consists of white space
  only, the search returns the collection it was given (or the held one), whatever
  it holds. With any other keyword, over a collection of well-formed bookmarks, it
  returns exactly, and in their order, the bookmarks for which the keyword,
  lower-cased and trimmed, is contained in the lower-cased title, url, description
  or folder or in one lower-cased tag. Over any collection whatever, a search that
  returns gives the elements of the collection, in their order, on which the test
  of the code is true. The last conjunct says that \<open>str_includes\<close> is containment.
\<close>

theorem search_trimmed_keyword:
  "(trim kw = [] \<longrightarrow> searchBookmarks P a kw c = Inr (target a c))
   \<and> ((\<forall>b\<in>set bs. well_formed b) \<and> trim kw \<noteq> [] \<longrightarrow>
        searchBookmarks P a kw (Arr bs)
          = Inr (Arr (filter (contains_keyword P (trim (toLowerCase P kw))) bs)))
   \<and> (\<forall>r. trim kw \<noteq> [] \<and> searchBookmarks P a kw c = Inr r \<longrightarrow>
        (\<exists>xs. target a c = Arr xs
           \<and> r = Arr (filter (\<lambda>b. matches P (trim (toLowerCase P kw)) b = Inr True) xs)))
   \<and> (\<forall>s t. str_includes s t \<longleftrightarrow> (\<exists>p q. s = p @ t @ q))"
  using search_blank [of kw P a c] search_pure [of bs kw P a] search_returns [of kw P a c]
    str_includes_iff
  by blast

theorem search_trimmed_keyword_witness:
  "searchBookmarks example_platform empty_api ''   '' (Arr [github_bookmark, mdn_bookmark])
     = Inr (Arr [github_bookmark, mdn_bookmark])
   \<and> searchBookmarks example_platform empty_api
        [CHR 0xE3, CHR 0x80, CHR 0x80, CHR 0x20, CHR 0xC2, CHR 0xA0]
        (Arr [github_bookmark, mdn_bookmark])
     = Inr (Arr [github_bookmark, mdn_bookmark])
   \<and> searchBookmarks example_platform empty_api '' Git '' (Arr [github_bookmark, mdn_bookmark])
     = Inr (Arr [github_bookmark])"
proof -
  let ?c = "Arr [github_bookmark, mdn_bookmark]"
  have wf: "\<forall>b\<in>set [github_bookmark, mdn_bookmark]. well_formed b"
    by (simp add: samples_well_formed)
  have t: "target empty_api ?c = ?c"
    by (simp add: target_def)
  from search_trimmed_keyword [of "''   ''" example_platform empty_api ?c "[]"]
  have 1: "searchBookmarks example_platform empty_api ''   '' ?c = Inr ?c"
    using trim_git(3) t by simp
  from search_trimmed_keyword [of "[CHR 0xE3, CHR 0x80, CHR 0x80, CHR 0x20, CHR 0xC2, CHR 0xA0]"
      example_platform empty_api ?c "[]"]
  have 2: "searchBookmarks example_platform empty_api
             [CHR 0xE3, CHR 0x80, CHR 0x80, CHR 0x20, CHR 0xC2, CHR 0xA0] ?c = Inr ?c"
    using trim_git(4) t by simp
  from search_trimmed_keyword [of "'' Git ''" example_platform empty_api Null
      "[github_bookmark, mdn_bookmark]"] wf trim_git(2)
  have "searchBookmarks example_platform empty_api '' Git '' ?c
     = Inr (Arr (filter (contains_keyword example_platform (trim (toLowerCase example_platform '' Git '')))
                        [github_bookmark, mdn_bookmark]))"
    by blast
  then have 3: "searchBookmarks example_platform empty_api '' Git '' ?c = Inr (Arr [github_bookmark])"
    unfolding trim_git(1) by (simp add: sample_hits)
  show ?thesis using 1 2 3 by simp
qed

text \<open>
  The claim as stated fails in two ways. With the keyword lower-cased but not
  trimmed: for the keyword \<open>" git "\<close> the bookmark is returned, and the
  lower-cased keyword with its spaces is in none of its fields. And for every
  collection: over a bookmark that has a title only, the search for \<open>mail\<close>
  returns no subset but throws.
\<close>

theorem search_untrimmed_counterexample:
  "searchBookmarks example_platform empty_api '' git '' (Arr [github_bookmark])
     = Inr (Arr [github_bookmark])
   \<and> \<not> contains_keyword example_platform (toLowerCase example_platform '' git '') github_bookmark
   \<and> searchBookmarks example_platform empty_api ''mail'' (Arr [Obj [(''title'', Str ''GitHub'')]])
     = Inl TypeError"
  by code_simp

lemma commute_on_well_formed:
  assumes "\<forall>b\<in>set bs. well_formed b"
  shows "and_then (searchBookmarks P a kw (Arr bs)) (filterByFolder a name)
           = and_then (filterByFolder a name (Arr bs)) (searchBookmarks P a kw)
       \<and> and_then (searchBookmarks P a kw (Arr bs)) (filterByTag a tag)
           = and_then (filterByTag a tag (Arr bs)) (searchBookmarks P a kw)
       \<and> and_then (filterByFolder a name (Arr bs)) (filterByTag a tag)
           = and_then (filterByTag a tag (Arr bs)) (filterByFolder a name)
       \<and> searchBookmarks P a kw (Arr bs) = Inr (Arr (filter (search_pred P kw) bs))
       \<and> filterByFolder a name (Arr bs) = Inr (Arr (filter (folder_pred name) bs))
       \<and> filterByTag a tag (Arr bs) = Inr (Arr (filter (tag_pred tag) bs))"
proof -
  note wf = well_formed_filter [OF assms]
  have s: "\<And>p. searchBookmarks P a kw (Arr (filter p bs)) = Inr (Arr (filter (search_pred P kw) (filter p bs)))"
    by (rule search_filter) (rule wf)
  have f: "\<And>p. filterByFolder a name (Arr (filter p bs)) = Inr (Arr (filter (folder_pred name) (filter p bs)))"
    by (rule folder_filter) (rule wf)
  have t: "\<And>p. filterByTag a tag (Arr (filter p bs)) = Inr (Arr (filter (tag_pred tag) (filter p bs)))"
    by (rule tag_filter) (rule wf)
  have s0: "searchBookmarks P a kw (Arr bs) = Inr (Arr (filter (search_pred P kw) bs))"
    by (rule search_filter) (rule assms)
  have f0: "filterByFolder a name (Arr bs) = Inr (Arr (filter (folder_pred name) bs))"
    by (rule folder_filter) (rule assms)
  have t0: "filterByTag a tag (Arr bs) = Inr (Arr (filter (tag_pred tag) bs))"
    by (rule tag_filter) (rule assms)
  show ?thesis
    unfolding s0 f0 t0 and_then_def
    by (simp add: s f t conj_commute)
qed

text \<open>The six orders of the three operations, each on the result of the one before.\<close>

lemma six_orders:
  fixes P :: platform and kw name tag :: string and bs :: "jsval list"
  assumes "\<forall>b\<in>set bs. well_formed b"
  defines "all3 \<equiv> Inr (Arr (filter (\<lambda>b. search_pred P kw b \<and> folder_pred name b \<and> tag_pred tag b) bs))"
  shows "and_then (and_then (searchBookmarks P a kw (Arr bs)) (filterByFolder a name)) (filterByTag a tag) = all3"
    and "and_then (and_then (searchBookmarks P a kw (Arr bs)) (filterByTag a tag)) (filterByFolder a name) = all3"
    and "and_then (and_then (filterByFolder a name (Arr bs)) (searchBookmarks P a kw)) (filterByTag a tag) = all3"
    and "and_then (and_then (filterByFolder a name (Arr bs)) (filterByTag a tag)) (searchBookmarks P a kw) = all3"
    and "and_then (and_then (filterByTag a tag (Arr bs)) (searchBookmarks P a kw)) (filterByFolder a name) = all3"
    and "and_then (and_then (filterByTag a tag (Arr bs)) (filterByFolder a name)) (searchBookmarks P a kw) = all3"
proof -
  have wf: "\<forall>b\<in>set (filter p bs). well_formed b" for p
    using assms(1) by simp
  have s: "searchBookmarks P a kw (Arr (filter p bs)) = Inr (Arr (filter (\<lambda>b. p b \<and> search_pred P kw b) bs))" for p
    by (simp add: search_filter [OF wf])
  have f: "filterByFolder a name (Arr (filter p bs)) = Inr (Arr (filter (\<lambda>b. p b \<and> folder_pred name b) bs))" for p
    by (simp add: folder_filter [OF wf])
  have t: "filterByTag a tag (Arr (filter p bs)) = Inr (Arr (filter (\<lambda>b. p b \<and> tag_pred tag b) bs))" for p
    by (simp add: tag_filter [OF wf])
  have s0: "searchBookmarks P a kw (Arr bs) = Inr (Arr (filter (search_pred P kw) bs))"
    by (rule search_filter) (rule assms(1))
  have f0: "filterByFolder a name (Arr bs) = Inr (Arr (filter (folder_pred name) bs))"
    by (rule folder_filter) (rule assms(1))
  have t0: "filterByTag a tag (Arr bs) = Inr (Arr (filter (tag_pred tag) bs))"
    by (rule tag_filter) (rule assms(1))
  show "and_then (and_then (searchBookmarks P a kw (Arr bs)) (filterByFolder a name)) (filterByTag a tag) = all3"
    unfolding s0 and_then_def all3_def by (simp add: s f t) 
  show "and_then (and_then (searchBookmarks P a kw (Arr bs)) (filterByTag a tag)) (filterByFolder a name) = all3"
    unfolding s0 and_then_def all3_def by (simp add: s f t) (rule filter_cong, auto)
  show "and_then (and_then (filterByFolder a name (Arr bs)) (searchBookmarks P a kw)) (filterByTag a tag) = all3"
    unfolding f0 and_then_def all3_def by (simp add: s f t) (rule filter_cong, auto)
  show "and_then (and_then (filterByFolder a name (Arr bs)) (filterByTag a tag)) (searchBookmarks P a kw) = all3"
    unfolding f0 and_then_def all3_def by (simp add: s f t) (rule filter_cong, auto)
  show "and_then (and_then (filterByTag a tag (Arr bs)) (searchBookmarks P a kw)) (filterByFolder a name) = all3"
    unfolding t0 and_then_def all3_def by (simp add: s f t) (rule filter_cong, auto)
  show "and_then (and_then (filterByTag a tag (Arr bs)) (filterByFolder a name)) (searchBookmarks P a kw) = all3"
    unfolding t0 and_then_def all3_def by (simp add: s f t) (rule filter_cong, auto)
qed

lemma filter_list_sublist:
  "filter_list p xs = Inr ys \<Longrightarrow> filter_list q xs = Inr zs \<Longrightarrow>
   filter_list q ys = Inr us \<Longrightarrow> filter_list p zs = Inr vs \<Longrightarrow> us = vs"
proof -
  assume p: "filter_list p xs = Inr ys" and q: "filter_list q xs = Inr zs"
    and qy: "filter_list q ys = Inr us" and pz: "filter_list p zs = Inr vs"
  have "us = filter (\<lambda>x. q x = Inr True) (filter (\<lambda>x. p x = Inr True) xs)"
    using filter_list_result [OF p] filter_list_result [OF qy] by simp
  moreover have "vs = filter (\<lambda>x. p x = Inr True) (filter (\<lambda>x. q x = Inr True) xs)"
    using filter_list_result [OF q] filter_list_result [OF pz] by simp
  ultimately show ?thesis by (simp add: conj_commute)
qed

lemma target_target [simp]: "target a (target a c) = target a c"
  by (simp add: target_def)

lemma target_Arr [simp]: "target a (Arr xs) = Arr xs"
  by (simp add: target_def)

lemma filter_ops_agree:
  assumes "and_then (filter_op a i p c) (filter_op a j q) = Inr r1"
    and "and_then (filter_op a j q c) (filter_op a i p) = Inr r2"
  shows "r1 = r2"
proof (cases i; cases j)
  assume "i" "j"
  with assms have "r1 = target a c" "r2 = target a c"
    by (auto simp: and_then_def filter_op_def)
  then show ?thesis by simp
next
  assume i: "i" and j: "\<not> j"
  with assms(1) have 1: "js_filter q (target a c) = Inr r1" by (simp add: and_then_def filter_op_def)
  from js_filter_Inr [OF 1] obtain ys where "r1 = Arr ys" by blast
  with assms(2) i j 1 show ?thesis by (simp add: and_then_def filter_op_def)
next
  assume i: "\<not> i" and j: "j"
  with assms(2) have 1: "js_filter p (target a c) = Inr r2" by (simp add: and_then_def filter_op_def)
  from js_filter_Inr [OF 1] obtain ys where "r2 = Arr ys" by blast
  with assms(1) i j 1 show ?thesis by (simp add: and_then_def filter_op_def)
next
  assume i: "\<not> i" and j: "\<not> j"
  from assms(1) i j obtain x1 where p1: "js_filter p (target a c) = Inr x1"
    and q1: "js_filter q (target a x1) = Inr r1"
    by (auto simp: and_then_def filter_op_def split: sum.splits)
  from assms(2) i j obtain x2 where q2: "js_filter q (target a c) = Inr x2"
    and p2: "js_filter p (target a x2) = Inr r2"
    by (auto simp: and_then_def filter_op_def split: sum.splits)
  from js_filter_Inr [OF p1] obtain xs ys where c: "target a c = Arr xs"
    and ys: "filter_list p xs = Inr ys" "x1 = Arr ys" by blast
  from js_filter_Inr [OF q2] c obtain zs where zs: "filter_list q xs = Inr zs" "x2 = Arr zs" by auto
  from q1 ys(2) obtain us where us: "filter_list q ys = Inr us" "r1 = Arr us"
    by (auto dest: js_filter_Inr)
  from p2 zs(2) obtain vs where vs: "filter_list p zs = Inr vs" "r2 = Arr vs"
    by (auto dest: js_filter_Inr)
  from filter_list_sublist [OF ys(1) zs(1) us(1) vs(1)] us(2) vs(2) show ?thesis by simp
qed

lemma chains_agree:
  "and_then (searchBookmarks P a kw c) (filterByFolder a name) = Inr r1 \<Longrightarrow>
   and_then (filterByFolder a name c) (searchBookmarks P a kw) = Inr r2 \<Longrightarrow> r1 = r2"
  "and_then (searchBookmarks P a kw c) (filterByTag a tag) = Inr r3 \<Longrightarrow>
   and_then (filterByTag a tag c) (searchBookmarks P a kw) = Inr r4 \<Longrightarrow> r3 = r4"
  "and_then (filterByFolder a name c) (filterByTag a tag) = Inr r5 \<Longrightarrow>
   and_then (filterByTag a tag c) (filterByFolder a name) = Inr r6 \<Longrightarrow> r5 = r6"
proof -
  have s: "searchBookmarks P a kw = filter_op a (trim kw = []) (matches P (trim (toLowerCase P kw)))"
    by (rule ext) (rule search_op)
  have f: "filterByFolder a name = filter_op a (name = []) (folder_is name)"
    by (rule ext) (rule folder_op)
  have t: "filterByTag a tag = filter_op a (tag = []) (tags_include tag)"
    by (rule ext) (rule tag_op)
  show "and_then (searchBookmarks P a kw c) (filterByFolder a name) = Inr r1 \<Longrightarrow>
   and_then (filterByFolder a name c) (searchBookmarks P a kw) = Inr r2 \<Longrightarrow> r1 = r2"
    unfolding s f by (rule filter_ops_agree)
  show "and_then (searchBookmarks P a kw c) (filterByTag a tag) = Inr r3 \<Longrightarrow>
   and_then (filterByTag a tag c) (searchBookmarks P a kw) = Inr r4 \<Longrightarrow> r3 = r4"
    unfolding s t by (rule filter_ops_agree)
  show "and_then (filterByFolder a name c) (filterByTag a tag) = Inr r5 \<Longrightarrow>
   and_then (filterByTag a tag c) (filterByFolder a name) = Inr r6 \<Longrightarrow> r5 = r6"
    unfolding f t by (rule filter_ops_agree)
qed

text \<open>
  Claim C8, as amended. The three operations assign nothing (the functions of the
  model return a result only). Over a collection of well-formed bookmarks each of
  them is a filter of the collection by a predicate on one bookmark, every two of
  them commute when chained, and each of the six orders of the three gives the
  bookmarks that satisfy the three predicates, in the order of the collection. Over
  any collection whatever, two chains of the same two operations that both return
  return the same.
\<close>

theorem filters_commute:
  "((\<forall>b\<in>set bs. well_formed b) \<longrightarrow>
       and_then (searchBookmarks P a kw (Arr bs)) (filterByFolder a name)
         = and_then (filterByFolder a name (Arr bs)) (searchBookmarks P a kw)
     \<and> and_then (searchBookmarks P a kw (Arr bs)) (filterByTag a tag)
         = and_then (filterByTag a tag (Arr bs)) (searchBookmarks P a kw)
     \<and> and_then (filterByFolder a name (Arr bs)) (filterByTag a tag)
         = and_then (filterByTag a tag (Arr bs)) (filterByFolder a name)
     \<and> searchBookmarks P a kw (Arr bs) = Inr (Arr (filter (search_pred P kw) bs))
     \<and> filterByFolder a name (Arr bs) = Inr (Arr (filter (folder_pred name) bs))
     \<and> filterByTag a tag (Arr bs) = Inr (Arr (filter (tag_pred tag) bs))
     \<and> and_then (and_then (searchBookmarks P a kw (Arr bs)) (filterByFolder a name)) (filterByTag a tag)
         = Inr (Arr (filter (\<lambda>b. search_pred P kw b \<and> folder_pred name b \<and> tag_pred tag b) bs))
     \<and> and_then (and_then (searchBookmarks P a kw (Arr bs)) (filterByTag a tag)) (filterByFolder a name)
         = Inr (Arr (filter (\<lambda>b. search_pred P kw b \<and> folder_pred name b \<and> tag_pred tag b) bs))
     \<and> and_then (and_then (filterByFolder a name (Arr bs)) (searchBookmarks P a kw)) (filterByTag a tag)
         = Inr (Arr (filter (\<lambda>b. search_pred P kw b \<and> folder_pred name b \<and> tag_pred tag b) bs))
     \<and> and_then (and_then (filterByFolder a name (Arr bs)) (filterByTag a tag)) (searchBookmarks P a kw)
         = Inr (Arr (filter (\<lambda>b. search_pred P kw b \<and> folder_pred name b \<and> tag_pred tag b) bs))
     \<and> and_then (and_then (filterByTag a tag (Arr bs)) (searchBookmarks P a kw)) (filterByFolder a name)
         = Inr (Arr (filter (\<lambda>b. search_pred P kw b \<and> folder_pred name b \<and> tag_pred tag b) bs))
     \<and> and_then (and_then (filterByTag a tag (Arr bs)) (filterByFolder a name)) (searchBookmarks P a kw)
         = Inr (Arr (filter (\<lambda>b. search_pred P kw b \<and> folder_pred name b \<and> tag_pred tag b) bs)))
   \<and> (\<forall>r1 r2. and_then (searchBookmarks P a kw c) (filterByFolder a name) = Inr r1
          \<and> and_then (filterByFolder a name c) (searchBookmarks P a kw) = Inr r2
         \<longrightarrow> r1 = r2)
   \<and> (\<forall>r1 r2. and_then (searchBookmarks P a kw c) (filterByTag a tag) = Inr r1
          \<and> and_then (filterByTag a tag c) (searchBookmarks P a kw) = Inr r2
         \<longrightarrow> r1 = r2)
   \<and> (\<forall>r1 r2. and_then (filterByFolder a name c) (filterByTag a tag) = Inr r1
          \<and> and_then (filterByTag a tag c) (filterByFolder a name) = Inr r2
         \<longrightarrow> r1 = r2)"
proof (intro conjI impI)
  assume wf: "\<forall>b\<in>set bs. well_formed b"
  note c = commute_on_well_formed [OF wf, of P a kw name tag]
  show "and_then (searchBookmarks P a kw (Arr bs)) (filterByFolder a name)
         = and_then (filterByFolder a name (Arr bs)) (searchBookmarks P a kw)"
    using c by blast
  show "and_then (searchBookmarks P a kw (Arr bs)) (filterByTag a tag)
         = and_then (filterByTag a tag (Arr bs)) (searchBookmarks P a kw)"
    using c by blast
  show "and_then (filterByFolder a name (Arr bs)) (filterByTag a tag)
         = and_then (filterByTag a tag (Arr bs)) (filterByFolder a name)"
    using c by blast
  show "searchBookmarks P a kw (Arr bs) = Inr (Arr (filter (search_pred P kw) bs))"
    using c by blast
  show "filterByFolder a name (Arr bs) = Inr (Arr (filter (folder_pred name) bs))"
    using c by blast
  show "filterByTag a tag (Arr bs) = Inr (Arr (filter (tag_pred tag) bs))"
    using c by blast
  show "and_then (and_then (searchBookmarks P a kw (Arr bs)) (filterByFolder a name)) (filterByTag a tag)
         = Inr (Arr (filter (\<lambda>b. search_pred P kw b \<and> folder_pred name b \<and> tag_pred tag b) bs))"
    by (rule six_orders(1) [OF wf])
  show "and_then (and_then (searchBookmarks P a kw (Arr bs)) (filterByTag a tag)) (filterByFolder a name)
         = Inr (Arr (filter (\<lambda>b. search_pred P kw b \<and> folder_pred name b \<and> tag_pred tag b) bs))"
    by (rule six_orders(2) [OF wf])
  show "and_then (and_then (filterByFolder a name (Arr bs)) (searchBookmarks P a kw)) (filterByTag a tag)
         = Inr (Arr (filter (\<lambda>b. search_pred P kw b \<and> folder_pred name b \<and> tag_pred tag b) bs))"
    by (rule six_orders(3) [OF wf])
  show "and_then (and_then (filterByFolder a name (Arr bs)) (filterByTag a tag)) (searchBookmarks P a kw)
         = Inr (Arr (filter (\<lambda>b. search_pred P kw b \<and> folder_pred name b \<and> tag_pred tag b) bs))"
    by (rule six_orders(4) [OF wf])
  show "and_then (and_then (filterByTag a tag (Arr bs)) (searchBookmarks P a kw)) (filterByFolder a name)
         = Inr (Arr (filter (\<lambda>b. search_pred P kw b \<and> folder_pred name b \<and> tag_pred tag b) bs))"
    by (rule six_orders(5) [OF wf])
  show "and_then (and_then (filterByTag a tag (Arr bs)) (filterByFolder a name)) (searchBookmarks P a kw)
         = Inr (Arr (filter (\<lambda>b. search_pred P kw b \<and> folder_pred name b \<and> tag_pred tag b) bs))"
    by (rule six_orders(6) [OF wf])
next
  show "\<forall>r1 r2. and_then (searchBookmarks P a kw c) (filterByFolder a name) = Inr r1
          \<and> and_then (filterByFolder a name c) (searchBookmarks P a kw) = Inr r2
         \<longrightarrow> r1 = r2"
    by (blast dest: chains_agree(1))
next
  show "\<forall>r1 r2. and_then (searchBookmarks P a kw c) (filterByTag a tag) = Inr r1
          \<and> and_then (filterByTag a tag c) (searchBookmarks P a kw) = Inr r2
         \<longrightarrow> r1 = r2"
    by (blast dest: chains_agree(2))
next
  show "\<forall>r1 r2. and_then (filterByFolder a name c) (filterByTag a tag) = Inr r1
          \<and> and_then (filterByTag a tag c) (filterByFolder a name) = Inr r2
         \<longrightarrow> r1 = r2"
    by (blast dest: chains_agree(3))
qed

theorem filters_commute_witness:
  "and_then (searchBookmarks example_platform empty_api ''dev'' (Arr [github_bookmark, mdn_bookmark]))
            (filterByFolder empty_api ''Docs'') = Inr (Arr [mdn_bookmark])
   \<and> and_then (filterByFolder empty_api ''Docs'' (Arr [github_bookmark, mdn_bookmark]))
            (searchBookmarks example_platform empty_api ''dev'') = Inr (Arr [mdn_bookmark])"
proof -
  have wf: "\<forall>b\<in>set [github_bookmark, mdn_bookmark]. well_formed b"
    by (simp add: samples_well_formed)
  have f: "and_then (filterByFolder empty_api ''Docs'' (Arr [github_bookmark, mdn_bookmark]))
            (searchBookmarks example_platform empty_api ''dev'') = Inr (Arr [mdn_bookmark])"
    by code_simp
  from filters_commute [of "[github_bookmark, mdn_bookmark]" example_platform empty_api
      "''dev''" "''Docs''" "''dev''"] wf
  have "and_then (searchBookmarks example_platform empty_api ''dev'' (Arr [github_bookmark, mdn_bookmark]))
            (filterByFolder empty_api ''Docs'')
      = and_then (filterByFolder empty_api ''Docs'' (Arr [github_bookmark, mdn_bookmark]))
            (searchBookmarks example_platform empty_api ''dev'')"
    by blast
  with f show ?thesis by simp
qed

text \<open>
  The claim as stated, for every collection, fails on the collection of one
  bookmark that has a folder and nothing else: the search throws on the missing
  title, so the chain that searches first throws, while the chain that filters by
  folder first leaves nothing for the search to look at and returns the empty
  array.
\<close>

theorem filters_order_counterexample:
  "and_then (searchBookmarks example_platform empty_api ''x'' (Arr [Obj [(''folder'', Str ''X'')]]))
            (filterByFolder empty_api ''Y'') = Inl TypeError
   \<and> and_then (filterByFolder empty_api ''Y'' (Arr [Obj [(''folder'', Str ''X'')]]))
            (searchBookmarks example_platform empty_api ''x'') = Inr (Arr [])"
  by code_simp

text \<open>
  Claim C9. If the search returns a result for every keyword that is not blank,
  then every bookmark of the collection has strings for its title, url, description
  and folder and an array for its tags. The import takes any array: after importing
  a file whose bookmark has no description and no tags, which succeeds, a search
  of the instance for \<open>mail\<close> throws a \<open>TypeError\<close>.
\<close>

theorem search_needs_typed_fields:
  "((\<forall>kw. trim kw \<noteq> [] \<longrightarrow> (\<exists>r. searchBookmarks P a kw (Arr bs) = Inr r))
      \<longrightarrow> (\<forall>b\<in>set bs. searchable b))
   \<and> fst (importBookmarks P empty_api partial_export)
       = success (snd (importBookmarks P empty_api partial_export))
   \<and> bookmarks (snd (importBookmarks P empty_api partial_export))
       = [Obj [(''title'', Str ''GitHub''), (''url'', Str ''https://github.com'')]]
   \<and> searchBookmarks P (snd (importBookmarks P empty_api partial_export)) ''mail'' Null
       = Inl TypeError"
proof -
  have i: "importBookmarks P empty_api partial_export =
        (success (empty_api\<lparr>bookmarks := [Obj [(''title'', Str ''GitHub''), (''url'', Str ''https://github.com'')]], folders := Arr []\<rparr>),
         empty_api\<lparr>bookmarks := [Obj [(''title'', Str ''GitHub''), (''url'', Str ''https://github.com'')]], folders := Arr []\<rparr>)"
    by (simp add: importBookmarks_def import_try_def partial_export_def JSON_parse_def
        define_all_def isArray_def items_def)
  have k: "trim ''mail'' = ''mail''" by code_simp
  have l: "toLowerCase P ''mail'' = ''mail''" "toLowerCase P ''GitHub'' = ''github''"
    "toLowerCase P ''https://github.com'' = ''https://github.com''"
    by code_simp+
  have s: "searchBookmarks P (empty_api\<lparr>bookmarks := [Obj [(''title'', Str ''GitHub''), (''url'', Str ''https://github.com'')]], folders := Arr []\<rparr>) ''mail'' Null = Inl TypeError"
    by (simp add: searchBookmarks_def target_def k l js_filter_def matches_def
        or_else_def field_includes_def)
  show ?thesis using search_total_searchable [of P a bs] by (simp add: i s)
qed

theorem search_needs_typed_fields_witness:
  "searchable github_bookmark
   \<and> searchBookmarks example_platform (snd (importBookmarks example_platform empty_api partial_export)) ''mail'' Null
       = Inl TypeError"
proof -
  have "\<forall>kw. trim kw \<noteq> [] \<longrightarrow> (\<exists>r. searchBookmarks example_platform empty_api kw (Arr [github_bookmark]) = Inr r)"
    by (simp add: search_filter samples_well_formed)
  with search_needs_typed_fields [of example_platform empty_api "[github_bookmark]"]
  show ?thesis by simp
qed

section \<open>Domain extraction and tags: properties\<close>

text \<open>
  Claim C6. On a string, domain extraction returns the hostname when the string
  parses as a URL, and the string itself when parsing throws; it throws nothing
  itself: its result is a value for every argument (in the model its type has no
  error), because the \<open>catch\<close> block takes whatever the \<open>try\<close> block throws.
\<close>

theorem extractDomain_safe:
  "(\<forall>h. url_hostname P s = Some h \<longrightarrow> extractDomain P (Str s) = Str h)
   \<and> (url_hostname P s = None \<longrightarrow> extractDomain P (Str s) = Str s)"
  by (simp add: extractDomain_def)

theorem extractDomain_safe_witness:
  "extractDomain example_platform (Str ''not a url'') = Str ''not a url''
   \<and> extractDomain example_platform (Str ''https://github.com/x'') = Str ''github.com''"
proof -
  have n: "url_hostname example_platform ''not a url'' = None"
    by code_simp
  have g: "url_hostname example_platform ''https://github.com/x'' = Some ''github.com''"
    by code_simp
  show ?thesis
    using extractDomain_safe [of example_platform "''not a url''"]
      extractDomain_safe [of example_platform "''https://github.com/x''"] n g
    by simp
qed

lemma set_foldl_set_add: "set (foldl set_add acc xs) = set acc \<union> set xs"
  by (induction xs arbitrary: acc) (auto simp: set_add_def)

lemma distinct_foldl_set_add: "distinct acc \<Longrightarrow> distinct (foldl set_add acc xs)"
  by (induction xs arbitrary: acc) (auto simp: set_add_def)

lemma firsts_snoc: "firsts (xs @ [x]) = (if x \<in> set xs then firsts xs else firsts xs @ [x])"
proof -
  have "[(xs @ [x]) ! i. i \<leftarrow> [0..<length xs], (xs @ [x]) ! i \<notin> set (take i (xs @ [x]))]
      = [xs ! i. i \<leftarrow> [0..<length xs], xs ! i \<notin> set (take i xs)]"
    by (intro arg_cong [where f = concat] map_cong) (auto simp: nth_append)
  then show ?thesis by (simp add: firsts_def)
qed

lemma foldl_set_add_firsts: "foldl set_add [] xs = firsts xs"
proof (induction xs rule: rev_induct)
  case Nil
  then show ?case by (simp add: firsts_def)
next
  case (snoc x xs)
  have "set (firsts xs) = set xs" using snoc set_foldl_set_add [of "[]" xs] by simp
  with snoc show ?case by (simp add: firsts_snoc set_add_def)
qed

lemma extractDomain_Str: "\<exists>d. extractDomain P (Str s) = Str d"
  by (simp add: extractDomain_def split: option.splits)

lemma unique_plain: "unique (Arr xs) None = Inr (Arr (firsts xs))"
  by (simp add: unique_def isArray_def items_def foldl_set_add_firsts)

lemma generateTags_Inr:
  "generateTags P title url = Inr v \<Longrightarrow> \<exists>ts. v = Arr ts \<and> distinct ts"
  by (auto simp: generateTags_def Let_def unique_def isArray_def items_def distinct_foldl_set_add
      split: sum.splits jsval.splits)

lemma generateTags_strings:
  "generateTags P (Str title) (Str url) =
     Inr (Arr (firsts (domain_tags (str_includes (text_of (extractDomain P (Str url))))
                       @ title_tags (toLowerCase P title))))"
proof -
  obtain d where d: "extractDomain P (Str url) = Str d" using extractDomain_Str by blast
  have "(\<lambda>s. js_includes (Str d) s = Inr True) = str_includes d"
    by (auto simp: js_includes_def)
  with d show ?thesis
    by (simp add: generateTags_def js_includes_def unique_plain text_of_def)
qed

lemma distinct_firsts: "distinct (firsts (xs :: jsval list))"
  using distinct_foldl_set_add [of "[]" xs] by (simp add: foldl_set_add_firsts)

lemma set_firsts: "set (firsts (xs :: jsval list)) = set xs"
  using set_foldl_set_add [of "[]" xs] by (simp add: foldl_set_add_firsts)

section \<open>The parsers: properties\<close>

lemma make_bookmark_fields:
  assumes "make_bookmark P pp node = Inr b"
  shows "tags_distinct b"
    and "field_of b ''domain'' = extractDomain P (field_of node ''url'')"
    and "field_of b ''url'' = field_of node ''url''"
    and "field_of b ''folder'' = (if truthy pp then pp else Str ROOT_FOLDER)"
proof -
  from assms obtain date description tags where
    t: "generateTags P (field_of node ''title'') (field_of node ''url'') = Inr tags"
    and b: "b = Obj [(''id'', field_of node ''id''),
                   (''title'', if truthy (field_of node ''title'') then field_of node ''title'' else Str UNTITLED),
                   (''url'', field_of node ''url''),
                   (''folder'', if truthy pp then pp else Str ROOT_FOLDER),
                   (''dateAdded'', date),
                   (''description'', description),
                   (''tags'', tags),
                   (''domain'', extractDomain P (field_of node ''url''))]"
    by (auto simp: make_bookmark_def Let_def split: sum.splits)
  from generateTags_Inr [OF t] obtain ts where "tags = Arr ts" "distinct ts" by blast
  with b show "tags_distinct b"
    by (simp add: tags_distinct_def field_of_def isArray_def items_def)
  from b show "field_of b ''domain'' = extractDomain P (field_of node ''url'')"
    and "field_of b ''url'' = field_of node ''url''"
    and "field_of b ''folder'' = (if truthy pp then pp else Str ROOT_FOLDER)"
    by (simp_all add: field_of_def)
qed

lemma field_of_push_child:
  "k \<noteq> ''children'' \<Longrightarrow> field_of (push_child f b) k = field_of f k"
proof (cases f)
  case (Obj kvs)
  have "map_of (map (\<lambda>kv. if fst kv = ''children'' then (fst kv, Arr (items (snd kv) @ [b])) else kv) kvs) k
        = map_of kvs k" if "k \<noteq> ''children''"
    using that by (induction kvs) auto
  with Obj show "k \<noteq> ''children'' \<Longrightarrow> ?thesis"
    by (simp add: push_child_def field_of_def)
qed (simp_all add: push_child_def)

lemma paths_update:
  "i < length fs \<Longrightarrow> paths (fs[i := push_child (fs ! i) b]) = paths fs"
proof -
  assume i: "i < length fs"
  have "map (\<lambda>f. field_of f ''path'') (fs[i := push_child (fs ! i) b]) = map (\<lambda>f. field_of f ''path'') fs"
    using i by (simp add: map_update field_of_push_child list_update_same_conv)
  then have "set (map (\<lambda>f. field_of f ''path'') (fs[i := push_child (fs ! i) b])) = set (map (\<lambda>f. field_of f ''path'') fs)"
    by simp
  then show ?thesis unfolding paths_def by simp
qed

lemma paths_attach_sub: "paths (acc_folders st) \<subseteq> paths (acc_folders (attach pp b st))"
proof (cases "find_parent st pp")
  case None
  then show ?thesis by (simp add: attach_def)
next
  case (Some i)
  show ?thesis
  proof (cases "i < length (acc_folders st)")
    case True
    with Some show ?thesis by (simp add: attach_def paths_update)
  next
    case False
    with Some show ?thesis by (simp add: attach_def list_update_beyond)
  qed
qed

lemma bookmarks_attach [simp]: "acc_bookmarks (attach pp b st) = acc_bookmarks st"
  by (simp add: attach_def split: option.splits)

lemma folderMap_attach [simp]: "folderMap (attach pp b st) = folderMap st"
  by (simp add: attach_def split: option.splits)

lemma length_folders_attach [simp]: "length (acc_folders (attach pp b st)) = length (acc_folders st)"
  by (simp add: attach_def split: option.splits)

lemma container_step_bookmarks:
  "container_step P pp node st = Inr (fp, st1) \<Longrightarrow> acc_bookmarks st1 = acc_bookmarks st"
  by (auto simp: container_step_def add_folder_def Let_def split: sum.splits if_splits)

lemma leaf_step_bookmarks:
  assumes "leaf_step P pp node st = Inr st1"
  shows "\<exists>b. make_bookmark P pp node = Inr b \<and> acc_bookmarks st1 = acc_bookmarks st @ [b]
             \<and> acc_folders st1 = acc_folders (attach pp b (st\<lparr>acc_bookmarks := acc_bookmarks st @ [b]\<rparr>))"
  using assms by (auto simp: leaf_step_def split: sum.splits)

lemma traverse_good:
  fixes G :: "jsval \<Rightarrow> bool"
  shows "traverse P pp nodes st = Inr st' \<Longrightarrow>
         \<forall>pp node b. truthy (field_of node ''url'') \<longrightarrow> make_bookmark P pp node = Inr b \<longrightarrow> G b \<Longrightarrow>
         \<forall>b\<in>set (acc_bookmarks st). G b \<Longrightarrow> \<forall>b\<in>set (acc_bookmarks st'). G b"
    and "visit P pp node st = Inr st' \<Longrightarrow>
         \<forall>pp node b. truthy (field_of node ''url'') \<longrightarrow> make_bookmark P pp node = Inr b \<longrightarrow> G b \<Longrightarrow>
         \<forall>b\<in>set (acc_bookmarks st). G b \<Longrightarrow> \<forall>b\<in>set (acc_bookmarks st'). G b"
proof (induction P pp nodes st and P pp node st arbitrary: st' and st' rule: traverse_visit.induct)
  case (1 P parentPath st)
  then show ?case by simp
next
  case (2 P parentPath node nodes st)
  from "2.prems"(1) obtain st1 where v: "visit P parentPath node st = Inr st1"
    and t: "traverse P parentPath nodes st1 = Inr st'"
    by (auto split: sum.splits)
  have "\<forall>b\<in>set (acc_bookmarks st1). G b"
    using "2.IH"(1) [OF v "2.prems"(2)] "2.prems"(3) by blast
  with "2.IH"(2) [OF v t "2.prems"(2)] show ?case by blast
next
  case (3 P parentPath node st)
  from "3.prems"(1) obtain children where c: "get node ''children'' = Inr children"
    by (auto split: sum.splits)
  show ?case
  proof (cases "truthy children")
    case True
    with "3.prems"(1) c obtain fp st1 cs where cs: "container_step P parentPath node st = Inr (fp, st1)"
      and a: "children = Arr cs"
      and t: "traverse P (if fp = Undefined then Str [] else fp) cs st1 = Inr st'"
      by (auto split: sum.splits jsval.splits prod.splits)
    have "\<forall>b\<in>set (acc_bookmarks st1). G b"
      using container_step_bookmarks [OF cs] "3.prems"(3) by simp
    with "3.IH" [OF c True cs refl a t "3.prems"(2)] show ?thesis by blast
  next
    case False
    show ?thesis
    proof (cases "truthy (field_of node ''url'')")
      case u: True
      with "3.prems"(1) c False have "leaf_step P parentPath node st = Inr st'" by simp
      from leaf_step_bookmarks [OF this] obtain b where "make_bookmark P parentPath node = Inr b"
        and "acc_bookmarks st' = acc_bookmarks st @ [b]" by blast
      with u "3.prems"(2,3) show ?thesis by auto
    next
      case nu: False
      with "3.prems" c False show ?thesis by simp
    qed
  qed
qed

lemma folder_known_mono: "paths fs \<subseteq> paths fs' \<Longrightarrow> folder_known fs b \<Longrightarrow> folder_known fs' b"
  by (auto simp: folder_known_def)

lemma folder_path_truthy:
  assumes "folder_path P pp title = Inr fp" and "truthy pp \<or> truthy title"
  shows "truthy fp"
  using assms by (auto simp: folder_path_def split: if_splits sum.splits)

lemma folder_path_falsy:
  assumes "folder_path P pp title = Inr fp" and "\<not> truthy pp"
  shows "fp = title"
  using assms by (auto simp: folder_path_def split: if_splits sum.splits)

lemma paths_add_folder:
  "paths (acc_folders (add_folder node fp pp st)) = insert fp (paths (acc_folders st))"
  by (auto simp: add_folder_def Let_def paths_def field_of_def)

lemma container_step_cases:
  assumes "container_step P pp node st = Inr (fp, st1)"
  shows "folder_path P pp (field_of node ''title'') = Inr fp
         \<and> (if truthy (field_of node ''title'') \<and> field_of node ''title'' \<noteq> Str BOOKMARKS_BAR
                \<and> field_of node ''title'' \<noteq> Str OTHER_BOOKMARKS
             then st1 = add_folder node fp pp st else st1 = st)"
  using assms by (auto simp: container_step_def Let_def split: sum.splits if_splits)

lemma leaf_step_folders:
  assumes "leaf_step P pp node st = Inr st1"
  shows "paths (acc_folders st) \<subseteq> paths (acc_folders st1)"
proof -
  from leaf_step_bookmarks [OF assms] obtain b where
    "acc_folders st1 = acc_folders (attach pp b (st\<lparr>acc_bookmarks := acc_bookmarks st @ [b]\<rparr>))"
    by blast
  with paths_attach_sub [of "st\<lparr>acc_bookmarks := acc_bookmarks st @ [b]\<rparr>" pp b]
  show ?thesis by simp
qed

lemma placed_mono:
  assumes "placed S st" and "acc_bookmarks st1 = acc_bookmarks st"
    and "paths (acc_folders st) \<subseteq> paths (acc_folders st1)"
  shows "placed S st1"
  unfolding placed_def
proof
  fix b assume "b \<in> set (acc_bookmarks st1)"
  with assms(1,2) have "folder_known (acc_folders st) b \<or> field_of b ''folder'' \<in> S"
    by (simp add: placed_def)
  with assms(3) show "folder_known (acc_folders st1) b \<or> field_of b ''folder'' \<in> S"
    by (auto intro: folder_known_mono)
qed

lemma traverse_placed:
  shows "traverse P pp nodes st = Inr st' \<Longrightarrow> set (pseudo_root_paths P pp nodes) \<subseteq> S \<Longrightarrow>
         (truthy pp \<longrightarrow> pp \<in> paths (acc_folders st) \<union> S) \<Longrightarrow> placed S st \<Longrightarrow>
         placed S st' \<and> paths (acc_folders st) \<subseteq> paths (acc_folders st')"
    and "visit P pp node st = Inr st' \<Longrightarrow> set (pseudo_root_path P pp node) \<subseteq> S \<Longrightarrow>
         (truthy pp \<longrightarrow> pp \<in> paths (acc_folders st) \<union> S) \<Longrightarrow> placed S st \<Longrightarrow>
         placed S st' \<and> paths (acc_folders st) \<subseteq> paths (acc_folders st')"
proof (induction P pp nodes st and P pp node st arbitrary: st' and st' rule: traverse_visit.induct)
  case (1 P parentPath st)
  then show ?case by simp
next
  case (2 P parentPath node nodes st)
  from "2.prems"(1) obtain st1 where v: "visit P parentPath node st = Inr st1"
    and t: "traverse P parentPath nodes st1 = Inr st'"
    by (auto split: sum.splits)
  from "2.prems"(2) have rn: "set (pseudo_root_path P parentPath node) \<subseteq> S"
    and rs: "set (pseudo_root_paths P parentPath nodes) \<subseteq> S"
    by simp_all
  from "2.IH"(1) [OF v rn "2.prems"(3,4)]
  have k1: "placed S st1" and p1: "paths (acc_folders st) \<subseteq> paths (acc_folders st1)" by simp_all
  from p1 "2.prems"(3) have "truthy parentPath \<longrightarrow> parentPath \<in> paths (acc_folders st1) \<union> S" by blast
  from "2.IH"(2) [OF v t rs this k1] p1 show ?case by blast
next
  case (3 P parentPath node st)
  from "3.prems"(1) obtain children where c: "get node ''children'' = Inr children"
    by (auto split: sum.splits)
  show ?case
  proof (cases "truthy children")
    case True
    with "3.prems"(1) c obtain fp st1 cs where cs: "container_step P parentPath node st = Inr (fp, st1)"
      and a: "children = Arr cs"
      and t: "traverse P (if fp = Undefined then Str [] else fp) cs st1 = Inr st'"
      by (auto split: sum.splits jsval.splits prod.splits)
    note cc = container_step_cases [OF cs]
    from cc have fpath: "folder_path P parentPath (field_of node ''title'') = Inr fp" by simp
    have b1: "acc_bookmarks st1 = acc_bookmarks st" by (rule container_step_bookmarks [OF cs])
    let ?pp' = "if fp = Undefined then Str [] else fp"
    let ?makes = "truthy (field_of node ''title'') \<and> field_of node ''title'' \<noteq> Str BOOKMARKS_BAR
                  \<and> field_of node ''title'' \<noteq> Str OTHER_BOOKMARKS"
    have pr: "pseudo_root_path P parentPath node
            = (if ?makes \<or> \<not> truthy fp then [] else [fp]) @ pseudo_root_paths P ?pp' cs"
      using c a fpath by simp
    from "3.prems"(2)
    have "set ((if ?makes \<or> \<not> truthy fp then [] else [fp]) @ pseudo_root_paths P ?pp' cs) \<subseteq> S"
      by (simp only: pr)
    then have below: "set (pseudo_root_paths P ?pp' cs) \<subseteq> S"
      and pseudo: "\<not> ?makes \<and> truthy fp \<longrightarrow> fp \<in> S"
      by (auto split: if_splits)
    have sub: "paths (acc_folders st) \<subseteq> paths (acc_folders st1)"
      and here: "truthy ?pp' \<longrightarrow> ?pp' \<in> paths (acc_folders st1) \<union> S"
    proof -
      show "paths (acc_folders st) \<subseteq> paths (acc_folders st1)"
        using cc by (auto simp: paths_add_folder split: if_splits)
      show "truthy ?pp' \<longrightarrow> ?pp' \<in> paths (acc_folders st1) \<union> S"
      proof (cases ?makes)
        case True
        with cc have "st1 = add_folder node fp parentPath st" by simp
        then have "fp \<in> paths (acc_folders st1)" by (simp add: paths_add_folder)
        then show ?thesis by auto
      next
        case False
        show ?thesis
        proof
          assume "truthy ?pp'"
          then have tf: "truthy fp" by (auto split: if_splits)
          then have "?pp' = fp" by auto
          moreover from tf False pseudo have "fp \<in> S" by blast
          ultimately show "?pp' \<in> paths (acc_folders st1) \<union> S" by simp
        qed
      qed
    qed
    have k1: "placed S st1" by (rule placed_mono [OF "3.prems"(4) b1 sub])
    from "3.IH" [OF c True cs refl a t below here k1] sub show ?thesis by blast
  next
    case False
    show ?thesis
    proof (cases "truthy (field_of node ''url'')")
      case u: True
      with "3.prems"(1) c False have l: "leaf_step P parentPath node st = Inr st'" by simp
      from leaf_step_bookmarks [OF l] obtain b where mb: "make_bookmark P parentPath node = Inr b"
        and bs: "acc_bookmarks st' = acc_bookmarks st @ [b]" by blast
      note sub = leaf_step_folders [OF l]
      have new: "folder_known (acc_folders st) b \<or> field_of b ''folder'' \<in> S"
        using make_bookmark_fields(4) [OF mb] "3.prems"(3) by (auto simp: folder_known_def)
      have "placed S st'"
        unfolding placed_def
      proof
        fix x assume "x \<in> set (acc_bookmarks st')"
        with bs have "x \<in> set (acc_bookmarks st) \<or> x = b" by auto
        with new "3.prems"(4) have "folder_known (acc_folders st) x \<or> field_of x ''folder'' \<in> S"
          by (auto simp: placed_def)
        with sub show "folder_known (acc_folders st') x \<or> field_of x ''folder'' \<in> S"
          by (auto intro: folder_known_mono)
      qed
      with sub show ?thesis by simp
    next
      case nu: False
      with "3.prems" c False show ?thesis by simp
    qed
  qed
qed

lemma paths_snoc: "paths (fs @ [f]) = insert (field_of f ''path'') (paths fs)"
  by (auto simp: paths_def)

lemma flatten_ok:
  "items_ok G cp xs \<Longrightarrow> (cp \<noteq> [] \<longrightarrow> Str cp \<in> paths (snd out)) \<Longrightarrow>
   \<forall>b\<in>set (fst out). G b \<and> folder_known (snd out) b \<Longrightarrow>
   (\<forall>b\<in>set (fst (flatten xs out)). G b \<and> folder_known (snd (flatten xs out)) b)
   \<and> paths (snd out) \<subseteq> paths (snd (flatten xs out))"
proof (induction cp xs arbitrary: out rule: items_ok.induct)
  case (empty cp)
  then show ?case by simp
next
  case (bookmark b cp rest)
  let ?o = "(fst out @ [b], snd out)"
  have "folder_known (snd out) b"
    using bookmark.hyps(3) bookmark.prems(1) by (auto simp: folder_known_def)
  with bookmark.hyps(2) bookmark.prems(2)
  have "\<forall>x\<in>set (fst ?o). G x \<and> folder_known (snd ?o) x" by simp
  moreover have "cp \<noteq> [] \<longrightarrow> Str cp \<in> paths (snd ?o)" using bookmark.prems(1) by simp
  ultimately have "(\<forall>x\<in>set (fst (flatten rest ?o)). G x \<and> folder_known (snd (flatten rest ?o)) x)
      \<and> paths (snd ?o) \<subseteq> paths (snd (flatten rest ?o))"
    using bookmark.IH [of ?o] by blast
  with bookmark.hyps(1) show ?case by simp
next
  case (folder f fp cp rest)
  let ?o1 = "(fst out, snd out @ [f])"
  let ?o2 = "flatten (items (field_of f ''children'')) ?o1"
  have p1: "paths (snd ?o1) = insert (Str fp) (paths (snd out))"
    using folder.hyps(2) by (simp add: paths_snoc)
  then have s1: "paths (snd out) \<subseteq> paths (snd ?o1)" by blast
  have "\<forall>x\<in>set (fst ?o1). G x \<and> folder_known (snd ?o1) x"
    using folder.prems(2) s1 by (auto intro: folder_known_mono)
  moreover have "fp \<noteq> [] \<longrightarrow> Str fp \<in> paths (snd ?o1)" using p1 by simp
  ultimately have k2: "\<forall>x\<in>set (fst ?o2). G x \<and> folder_known (snd ?o2) x"
    and s2: "paths (snd ?o1) \<subseteq> paths (snd ?o2)"
    using folder.IH(1) [of ?o1] by blast+
  have "cp \<noteq> [] \<longrightarrow> Str cp \<in> paths (snd ?o2)" using folder.prems(1) s1 s2 by blast
  with k2 have "(\<forall>x\<in>set (fst (flatten rest ?o2)). G x \<and> folder_known (snd (flatten rest ?o2)) x)
      \<and> paths (snd ?o2) \<subseteq> paths (snd (flatten rest ?o2))"
    using folder.IH(2) [of ?o2] by blast
  moreover have "flatten (f # rest) out = flatten rest ?o2" using folder.hyps(1) by simp
  ultimately show ?case using s1 s2 by auto
qed

lemma bookmark_item_ok:
  assumes "bookmark_item P ident fc cp = Inr b"
  shows "field_of b ''type'' = Str ''bookmark''" and "link_ok P b"
    and "field_of b ''folder'' = Str (if cp \<noteq> [] then cp else ROOT_FOLDER)"
proof -
  let ?url = "trim (filter (\<lambda>c. c \<noteq> CHR 0x60)
             (if truthy (getAttribute fc ''HREF'') then text_of (getAttribute fc ''HREF'') else []))"
  from assms obtain date description tags where
    t: "or_default (generateTags P (Str (textContent fc)) (Str ?url)) (Arr []) = Inr tags"
    and ty: "field_of b ''type'' = Str ''bookmark''" and tg: "field_of b ''tags'' = tags"
    and u: "field_of b ''url'' = Str ?url" and d: "field_of b ''domain'' = extractDomain P (Str ?url)"
    and f: "field_of b ''folder'' = Str (if cp \<noteq> [] then cp else ROOT_FOLDER)"
    by (auto simp: bookmark_item_def Let_def field_of_def split: sum.splits)
  from t obtain v where "generateTags P (Str (textContent fc)) (Str ?url) = Inr v"
    and tv: "tags = (if truthy v then v else Arr [])"
    by (auto simp: or_default_def split: sum.splits)
  from generateTags_Inr [OF this(1)] obtain ts where "v = Arr ts" "distinct ts" by blast
  with tv tg have "tags_distinct b" by (simp add: tags_distinct_def isArray_def items_def)
  with u d show "link_ok P b" by (simp add: link_ok_def is_str_def domain_extracted_def)
  from ty show "field_of b ''type'' = Str ''bookmark''" .
  from f show "field_of b ''folder'' = Str (if cp \<noteq> [] then cp else ROOT_FOLDER)" .
qed

lemma folder_item_fields [simp]:
  "field_of (folder_item i t fp cp content) ''type'' = Str ''folder''"
  "field_of (folder_item i t fp cp content) ''children'' = Arr content"
  "field_of (folder_item i t fp cp content) ''path'' = Str fp"
  by (simp_all add: folder_item_def field_of_def)

lemma walk_ok: "walk P cp nodes k = Inr r \<Longrightarrow> items_ok (link_ok P) cp (fst r)"
proof (induction P cp nodes k arbitrary: r rule: walk.induct)
  case (1 P currentPath k)
  then show ?case by (auto intro: items_ok.empty)
next
  case (2 P currentPath node nodes k)
  show ?case
  proof (cases "tagName node = ''DT''")
    case False
    with "2.prems" "2.IH"(7) show ?thesis by simp
  next
    case dt: True
    show ?thesis
    proof (cases "childElems node")
      case Nil
      with dt "2.prems" "2.IH"(1) show ?thesis by simp
    next
      case (Cons firstChild others)
      consider (h3) "tagName firstChild = ''H3''"
        | (a) "tagName firstChild \<noteq> ''H3''" "tagName firstChild = ''A''"
        | (other) "tagName firstChild \<noteq> ''H3''" "tagName firstChild \<noteq> ''A''" by blast
      then show ?thesis
      proof cases
        case h3
        let ?title = "trim (textContent firstChild)"
        let ?fp = "if currentPath \<noteq> [] then currentPath @ ''/'' @ ?title else ?title"
        let ?id = "fst (generateId P 8 k)"
        let ?k1 = "snd (generateId P 8 k)"
        show ?thesis
        proof (cases "nodes \<noteq> [] \<and> tagName (hd nodes) = ''DL''")
          case True
          with dt Cons h3 "2.prems" obtain r1 r2 where
            w1: "walk P ?fp (dt_dl (childElems (hd nodes))) ?k1 = Inr r1"
            and w2: "walk P currentPath (tl nodes) (snd r1) = Inr r2"
            and r: "r = (folder_item ?id ?title ?fp currentPath (fst r1) # fst r2, snd r2)"
            by (auto simp: Let_def split: sum.splits)
          have o1: "items_ok (link_ok P) ?fp (fst r1)"
            using "2.IH"(2) [OF dt Cons h3 refl refl refl refl True w1] .
          have o2: "items_ok (link_ok P) currentPath (fst r2)"
            using "2.IH"(3) [OF dt Cons h3 refl refl refl refl True w1 w2] .
          have "items_ok (link_ok P) currentPath
                  (folder_item ?id ?title ?fp currentPath (fst r1) # fst r2)"
            by (rule items_ok.folder [where fp = ?fp]) (simp_all add: items_def o1 o2)
          then show ?thesis unfolding r by simp
        next
          case False
          with dt Cons h3 "2.prems" obtain r2 where
            w2: "walk P currentPath nodes ?k1 = Inr r2"
            and r: "r = (folder_item ?id ?title ?fp currentPath [] # fst r2, snd r2)"
            by (auto simp: Let_def split: sum.splits)
          have o2: "items_ok (link_ok P) currentPath (fst r2)"
            using "2.IH"(4) [OF dt Cons h3 refl refl refl refl False w2] .
          have "items_ok (link_ok P) currentPath
                  (folder_item ?id ?title ?fp currentPath [] # fst r2)"
            by (rule items_ok.folder [where fp = ?fp]) (simp_all add: items_def o2 items_ok.empty)
          then show ?thesis unfolding r by simp
        qed
      next
        case a
        with dt Cons "2.prems" obtain b r2 where
          bi: "bookmark_item P (fst (generateId P 8 k)) firstChild currentPath = Inr b"
          and w2: "walk P currentPath nodes (snd (generateId P 8 k)) = Inr r2"
          and r: "r = (b # fst r2, snd r2)"
          by (auto split: sum.splits)
        have o2: "items_ok (link_ok P) currentPath (fst r2)"
          using "2.IH"(5) [OF dt Cons a bi w2] .
        show ?thesis unfolding r using o2 bookmark_item_ok [OF bi]
          by (auto intro!: items_ok.bookmark)
      next
        case other
        with dt Cons "2.prems" "2.IH"(6) show ?thesis by simp
      qed
    qed
  qed
qed

lemma html_links_ok:
  assumes "parseHTMLBookmarks P root = Inr r"
  shows "\<forall>b\<in>set (items (parsed_bookmarks r)).
           link_ok P b \<and> folder_known (items (parsed_folders r)) b"
proof -
  from assms obtain dl w where w: "walk P [] (dt_dl (childElems dl)) 0 = Inr w"
    and r: "parsed_bookmarks r = Arr (fst (flatten (fst w) ([], [])))"
      "parsed_folders r = Arr (snd (flatten (fst w) ([], [])))"
    by (auto simp: parseHTMLBookmarks_def split: option.splits sum.splits)
  from flatten_ok [OF walk_ok [OF w], of "([], [])"] r show ?thesis by (simp add: items_def)
qed

lemma html_tags_distinct:
  assumes "parseHTMLBookmarks P root = Inr r"
  shows "\<forall>b\<in>set (items (parsed_bookmarks r)). tags_distinct b"
  using html_links_ok [OF assms] by (simp add: link_ok_def)

lemma tree_tags_distinct:
  assumes "parseBookmarkTree P nodes = Inr r"
  shows "\<forall>b\<in>set (items (parsed_bookmarks r)). tags_distinct b"
proof -
  from assms obtain ns st where t: "traverse P (Str []) ns empty_acc = Inr st"
    and r: "parsed_bookmarks r = Arr (acc_bookmarks st)"
    by (auto simp: parseBookmarkTree_def split: jsval.splits sum.splits)
  have "\<forall>b\<in>set (acc_bookmarks st). tags_distinct b"
    by (rule traverse_good(1) [OF t]) (auto simp: empty_acc_def dest: make_bookmark_fields(1))
  with r show ?thesis by (simp add: items_def)
qed

lemma find_upt_first:
  assumes "i < n" "Q i" "\<forall>j<i. \<not> Q j"
  shows "List.find Q [0..<n] = Some i"
proof -
  have "\<exists>k<length [0..<n]. Q ([0..<n] ! k) \<and> i = [0..<n] ! k \<and> (\<forall>j<k. \<not> Q ([0..<n] ! j))"
    using assms by (intro exI [of _ i]) auto
  then show ?thesis by (simp only: find_Some_iff)
qed

lemma map_set_fresh:
  "\<forall>k'\<in>fst ` set m. \<not> same_key k' k \<Longrightarrow> map_set m k i = m @ [(k, i)]"
  by (induction m) auto

lemma creation_order_add_folder:
  assumes "creation_order st"
    and "\<forall>k\<in>fst ` set (folderMap st). \<not> same_key k (field_of node ''id'')"
  shows "creation_order (add_folder node fp pp st)"
  using assms by (simp add: creation_order_def add_folder_def Let_def map_set_fresh)

lemma tree_domain_extracted:
  assumes "parseBookmarkTree P nodes = Inr r"
  shows "\<forall>b\<in>set (items (parsed_bookmarks r)). truthy (field_of b ''url'') \<and> domain_extracted P b"
proof -
  from assms obtain ns st where t: "traverse P (Str []) ns empty_acc = Inr st"
    and r: "parsed_bookmarks r = Arr (acc_bookmarks st)"
    by (auto simp: parseBookmarkTree_def split: jsval.splits sum.splits)
  have "\<forall>b\<in>set (acc_bookmarks st). truthy (field_of b ''url'') \<and> domain_extracted P b"
    by (rule traverse_good(1) [OF t])
       (auto simp: empty_acc_def domain_extracted_def make_bookmark_fields(2,3))
  with r show ?thesis by (simp add: items_def)
qed

lemma tree_placed:
  assumes "parseBookmarkTree P nodes = Inr r"
  shows "\<forall>b\<in>set (items (parsed_bookmarks r)).
           folder_known (items (parsed_folders r)) b
           \<or> field_of b ''folder'' \<in> set (pseudo_root_paths P (Str []) (items nodes))"
proof -
  from assms obtain ns st where n: "nodes = Arr ns" and t: "traverse P (Str []) ns empty_acc = Inr st"
    and r: "parsed_bookmarks r = Arr (acc_bookmarks st)" "parsed_folders r = Arr (acc_folders st)"
    by (auto simp: parseBookmarkTree_def split: jsval.splits sum.splits)
  have "placed (set (pseudo_root_paths P (Str []) ns)) st"
    using traverse_placed(1) [OF t, of "set (pseudo_root_paths P (Str []) ns)"]
    by (simp add: placed_def empty_acc_def)
  with r n show ?thesis by (simp add: items_def placed_def)
qed

lemma domain_nonempty:
  assumes "domain_extracted P b" and "truthy (field_of b ''url'')"
    and "\<forall>s. to_string P (field_of b ''url'') = Inr s \<longrightarrow> url_hostname P s \<noteq> Some []"
  shows "field_of b ''domain'' \<noteq> Str []"
proof -
  from assms(2) have "field_of b ''url'' \<noteq> Str []" by auto
  with assms(1,3) show ?thesis
    by (auto simp: domain_extracted_def extractDomain_def split: sum.splits option.splits)
qed

lemma domain_string:
  assumes "domain_extracted P b" and "is_str (field_of b ''url'')"
  shows "is_str (field_of b ''domain'')"
proof -
  from assms(2) obtain s where "field_of b ''url'' = Str s" by (auto dest: is_strE)
  with assms(1) extractDomain_Str [of P s] show ?thesis
    by (auto simp: domain_extracted_def is_str_def)
qed

lemma isArray_truthy: "isArray v \<Longrightarrow> truthy v"
  by (cases v) (simp_all add: isArray_def)

lemma json_parser_paths:
  assumes "parseJSONBookmarks P t = Inr r'"
  shows "\<exists>data. JSON_parse t = Inr data
           \<and> (if isArray (field_of data ''bookmarks'')
               then r' = \<lparr>parsed_bookmarks = field_of data ''bookmarks'',
                          parsed_folders = (if truthy (field_of data ''folders'')
                                            then field_of data ''folders'' else Arr [])\<rparr>
               else truthy (field_of data ''roots'')
                    \<and> parseBookmarkTree P
                          (Arr [field_of (field_of data ''roots'') ''bookmark_bar'',
                                field_of (field_of data ''roots'') ''other'',
                                field_of (field_of data ''roots'') ''synced'']) = Inr r')"
proof -
  from assms obtain data b where d: "JSON_parse t = Inr data" and g: "get data ''bookmarks'' = Inr b"
    and rest: "(if truthy b \<and> isArray b
               then Inr \<lparr>parsed_bookmarks = b,
                         parsed_folders = (if truthy (field_of data ''folders'')
                                           then field_of data ''folders'' else Arr [])\<rparr>
               else if truthy (field_of data ''roots'')
               then parseBookmarkTree P
                      (Arr [field_of (field_of data ''roots'') ''bookmark_bar'',
                            field_of (field_of data ''roots'') ''other'',
                            field_of (field_of data ''roots'') ''synced''])
               else Inl (Error UNRECOGNIZED_FORMAT)) = Inr r'"
    by (auto simp: parseJSONBookmarks_def parseJSON_try_def split: sum.splits)
  from g have f: "field_of data ''bookmarks'' = b" by (rule get_field_of)
  show ?thesis
  proof (cases "isArray b")
    case True
    with rest isArray_truthy [OF True] d f show ?thesis by auto
  next
    case False
    with rest d f show ?thesis by (auto split: if_splits)
  qed
qed

text \<open>
  Claim C7. On a title and a url that are strings the tag generator returns an
  array without duplicates, namely the first occurrences, in their order, of the
  labels that the twelve rules give in the order of the source; and every bookmark
  that the native-tree parser or the markup parser returns has tags without
  duplicates.
\<close>

theorem tags_without_duplicates:
  "(\<exists>tags. generateTags P (Str title) (Str url) = Inr (Arr tags)
       \<and> distinct tags
       \<and> tags = firsts (domain_tags (str_includes (text_of (extractDomain P (Str url))))
                         @ title_tags (toLowerCase P title)))
   \<and> (parseBookmarkTree P nodes = Inr r \<longrightarrow>
        (\<forall>b\<in>set (items (parsed_bookmarks r)). tags_distinct b))
   \<and> (parseHTMLBookmarks P root = Inr r' \<longrightarrow>
        (\<forall>b\<in>set (items (parsed_bookmarks r')). tags_distinct b))"
proof (intro conjI impI)
  show "\<exists>tags. generateTags P (Str title) (Str url) = Inr (Arr tags)
       \<and> distinct tags
       \<and> tags = firsts (domain_tags (str_includes (text_of (extractDomain P (Str url))))
                         @ title_tags (toLowerCase P title))"
    using generateTags_strings [of P title url] distinct_firsts by blast
next
  assume "parseBookmarkTree P nodes = Inr r"
  then show "\<forall>b\<in>set (items (parsed_bookmarks r)). tags_distinct b"
    by (rule tree_tags_distinct)
next
  assume "parseHTMLBookmarks P root = Inr r'"
  then show "\<forall>b\<in>set (items (parsed_bookmarks r')). tags_distinct b"
    by (rule html_tags_distinct)
qed

theorem tags_without_duplicates_witness:
  "generateTags example_platform (Str ''Video docs'') (Str ''https://youtube.bilibili.com/'')
     = Inr (Arr [Str TAG_VIDEO, Str TAG_DOC])
   \<and> domain_tags (str_includes ''youtube.bilibili.com'') @ title_tags ''video docs''
     = [Str TAG_VIDEO, Str TAG_VIDEO, Str TAG_DOC]
   \<and> (case parseHTMLBookmarks example_platform (Some work_export) of
         Inl e \<Rightarrow> False
       | Inr r \<Rightarrow> list_all tags_distinct (items (parsed_bookmarks r))
                  \<and> map (\<lambda>b. field_of b ''tags'') (items (parsed_bookmarks r))
                      = [Arr [Str TAG_DEV, Str TAG_DOC]])"
proof -
  have d: "text_of (extractDomain example_platform (Str ''https://youtube.bilibili.com/''))
             = ''youtube.bilibili.com''" by code_simp
  have l: "toLowerCase example_platform ''Video docs'' = ''video docs''" by code_simp
  have rules: "domain_tags (str_includes ''youtube.bilibili.com'') @ title_tags ''video docs''
     = [Str TAG_VIDEO, Str TAG_VIDEO, Str TAG_DOC]" by code_simp
  have f: "firsts [Str TAG_VIDEO, Str TAG_VIDEO, Str TAG_DOC] = [Str TAG_VIDEO, Str TAG_DOC]"
    by code_simp
  have h: "(case parseHTMLBookmarks example_platform (Some work_export) of
         Inl e \<Rightarrow> False
       | Inr r \<Rightarrow> map (\<lambda>b. field_of b ''tags'') (items (parsed_bookmarks r))
                      = [Arr [Str TAG_DEV, Str TAG_DOC]])"
    by code_simp
  from tags_without_duplicates [of example_platform "''Video docs''" "''https://youtube.bilibili.com/''"
      Null undefined "Some work_export"]
  have g: "generateTags example_platform (Str ''Video docs'') (Str ''https://youtube.bilibili.com/'')
     = Inr (Arr [Str TAG_VIDEO, Str TAG_DOC])"
    and t: "\<And>r'. parseHTMLBookmarks example_platform (Some work_export) = Inr r' \<Longrightarrow>
        (\<forall>b\<in>set (items (parsed_bookmarks r')). tags_distinct b)"
    unfolding d l rules f by blast+
  show ?thesis
  proof (cases "parseHTMLBookmarks example_platform (Some work_export)")
    case (Inl e)
    with h show ?thesis by simp
  next
    case (Inr r)
    with h t [OF Inr] g rules show ?thesis by (simp add: list_all_iff)
  qed
qed

text \<open>
  Claim C3, as amended. When the folders stand in the map in the order of their
  creation, a leaf is attached to the first folder, in that order, whose path is the
  parent path: the bookmark is pushed into its children and no other folder changes,
  whatever folders of the same path come after it. The order of creation holds at
  the start and is kept by every folder whose id is not yet a key.
\<close>

theorem leaf_attaches_to_first_match:
  "(creation_order st \<and> i < length (acc_folders st)
      \<and> strict_eq (field_of (acc_folders st ! i) ''path'') pp
      \<and> (\<forall>j<i. \<not> strict_eq (field_of (acc_folders st ! j) ''path'') pp)
      \<and> make_bookmark P pp node = Inr b
    \<longrightarrow> leaf_step P pp node st =
          Inr (st\<lparr>acc_bookmarks := acc_bookmarks st @ [b],
                  acc_folders := (acc_folders st)[i := push_child (acc_folders st ! i) b]\<rparr>))
   \<and> creation_order empty_acc
   \<and> (creation_order st \<and> (\<forall>k\<in>fst ` set (folderMap st). \<not> same_key k (field_of c ''id''))
        \<longrightarrow> creation_order (add_folder c fp pp' st))"
proof -
  have "leaf_step P pp node st =
          Inr (st\<lparr>acc_bookmarks := acc_bookmarks st @ [b],
                  acc_folders := (acc_folders st)[i := push_child (acc_folders st ! i) b]\<rparr>)"
    if co: "creation_order st" and i: "i < length (acc_folders st)"
      and m: "strict_eq (field_of (acc_folders st ! i) ''path'') pp"
      and f: "\<forall>j<i. \<not> strict_eq (field_of (acc_folders st ! j) ''path'') pp"
      and mb: "make_bookmark P pp node = Inr b"
  proof -
    let ?st = "st\<lparr>acc_bookmarks := acc_bookmarks st @ [b]\<rparr>"
    have "find_parent ?st pp = Some i"
      using co find_upt_first [of i "length (acc_folders st)"
          "\<lambda>i. strict_eq (field_of (acc_folders st ! i) ''path'') pp", OF i m f]
      by (simp add: find_parent_def creation_order_def)
    then show ?thesis using mb by (simp add: leaf_step_def attach_def)
  qed
  moreover have "creation_order empty_acc" by (simp add: creation_order_def empty_acc_def)
  ultimately show ?thesis using creation_order_add_folder [of st c fp pp'] by blast
qed

theorem leaf_attaches_to_first_match_witness:
  "leaf_step example_platform (Str ''A'') (leaf ''4'' ''two'' ''https://b.example/'') twins_acc
     = Inr (twins_acc\<lparr>acc_bookmarks := acc_bookmarks twins_acc @ [two_bookmark],
                      acc_folders := (acc_folders twins_acc)
                         [0 := push_child (acc_folders twins_acc ! 0) two_bookmark]\<rparr>)
   \<and> map (\<lambda>f. field_of f ''path'') (acc_folders twins_acc) = [Str ''A'', Str ''A'']"
proof -
  have mb: "make_bookmark example_platform (Str ''A'') (leaf ''4'' ''two'' ''https://b.example/'')
              = Inr two_bookmark"
    by code_simp
  have co: "creation_order twins_acc" by code_simp
  have i: "0 < length (acc_folders twins_acc)" by code_simp
  have m: "strict_eq (field_of (acc_folders twins_acc ! 0) ''path'') (Str ''A'')" by code_simp
  have p: "map (\<lambda>f. field_of f ''path'') (acc_folders twins_acc) = [Str ''A'', Str ''A'']"
    by code_simp
  from leaf_attaches_to_first_match [of twins_acc 0 "Str ''A''" example_platform
      "leaf ''4'' ''two'' ''https://b.example/''" two_bookmark] co i m mb p
  show ?thesis by simp
qed

text \<open>
  The claim as stated, attachment to the folder added last, fails on two sibling
  folders titled \<open>A\<close>: the bookmark of the second is put into the children of the
  first, and the second folder stays empty.
\<close>

theorem leaf_attaches_to_last_counterexample:
  "(case parseBookmarkTree example_platform twins_tree of
      Inl e \<Rightarrow> False
    | Inr r \<Rightarrow>
        map (\<lambda>f. field_of f ''path'') (items (parsed_folders r)) = [Str ''A'', Str ''A'']
        \<and> map (\<lambda>f. map (\<lambda>b. field_of b ''id'') (items (field_of f ''children'')))
               (items (parsed_folders r))
          = [[Str ''2'', Str ''4''], []])"
  by code_simp

text \<open>
  Claim C10. For a container whose title is falsy (empty or absent) no folder is
  made and its children are traversed in the state as it was. When its parent
  path is falsy too, as at the top level, the children are traversed with a falsy
  parent path; and under a falsy parent path a leaf's bookmark has the root label
  as its folder and a container's path is its title alone.
\<close>

theorem untitled_container_is_skipped:
  "get node ''children'' = Inr (Arr cs) \<and> \<not> truthy (field_of node ''title'') \<longrightarrow>
     (\<forall>fp. folder_path P pp (field_of node ''title'') = Inr fp \<longrightarrow>
           visit P pp node st = traverse P (if fp = Undefined then Str [] else fp) cs st)
     \<and> (\<not> truthy pp \<longrightarrow> (\<exists>pp'. \<not> truthy pp' \<and> visit P pp node st = traverse P pp' cs st))
     \<and> (\<forall>pp' leaf b. \<not> truthy pp' \<and> make_bookmark P pp' leaf = Inr b \<longrightarrow>
           field_of b ''folder'' = Str ROOT_FOLDER)
     \<and> (\<forall>pp' c st0 fp st1. \<not> truthy pp' \<and> container_step P pp' c st0 = Inr (fp, st1) \<longrightarrow>
           fp = field_of c ''title'')"
proof (intro impI, elim conjE)
  assume c: "get node ''children'' = Inr (Arr cs)" and t: "\<not> truthy (field_of node ''title'')"
  have 1: "visit P pp node st = traverse P (if fp = Undefined then Str [] else fp) cs st"
    if "folder_path P pp (field_of node ''title'') = Inr fp" for fp
    using c t that by (simp add: container_step_def Let_def)
  have 2: "\<exists>pp'. \<not> truthy pp' \<and> visit P pp node st = traverse P pp' cs st" if "\<not> truthy pp"
  proof -
    from that have f: "folder_path P pp (field_of node ''title'') = Inr (field_of node ''title'')"
      by (simp add: folder_path_def)
    let ?pp' = "if field_of node ''title'' = Undefined then Str [] else field_of node ''title''"
    have "\<not> truthy ?pp'" using t by simp
    with 1 [OF f] show ?thesis by blast
  qed
  have 3: "field_of b ''folder'' = Str ROOT_FOLDER"
    if "\<not> truthy pp'" "make_bookmark P pp' leaf = Inr b" for pp' leaf b
    using make_bookmark_fields(4) [OF that(2)] that(1) by simp
  have 4: "fp = field_of c ''title''"
    if "\<not> truthy pp'" "container_step P pp' c st0 = Inr (fp, st1)" for pp' c st0 fp st1
    using container_step_cases [OF that(2)] folder_path_falsy [of P pp' "field_of c ''title''" fp] that(1)
    by simp
  from 1 2 3 4 show "(\<forall>fp. folder_path P pp (field_of node ''title'') = Inr fp \<longrightarrow>
           visit P pp node st = traverse P (if fp = Undefined then Str [] else fp) cs st)
     \<and> (\<not> truthy pp \<longrightarrow> (\<exists>pp'. \<not> truthy pp' \<and> visit P pp node st = traverse P pp' cs st))
     \<and> (\<forall>pp' leaf b. \<not> truthy pp' \<and> make_bookmark P pp' leaf = Inr b \<longrightarrow>
           field_of b ''folder'' = Str ROOT_FOLDER)
     \<and> (\<forall>pp' c st0 fp st1. \<not> truthy pp' \<and> container_step P pp' c st0 = Inr (fp, st1) \<longrightarrow>
           fp = field_of c ''title'')"
    by blast
qed

theorem untitled_container_is_skipped_witness:
  "visit example_platform (Str []) untitled_root empty_acc
     = traverse example_platform (Str [])
         [leaf ''2'' ''one'' ''https://a.example/'',
          container ''5'' ''Docs'' [leaf ''6'' ''two'' ''https://b.example/'']] empty_acc
   \<and> (case visit example_platform (Str []) untitled_root empty_acc of
         Inl e \<Rightarrow> False
       | Inr st \<Rightarrow>
           map (\<lambda>b. field_of b ''folder'') (acc_bookmarks st) = [Str ROOT_FOLDER, Str ''Docs'']
           \<and> map (\<lambda>f. (field_of f ''id'', field_of f ''path'', field_of f ''parentPath''))
                  (acc_folders st) = [(Str ''5'', Str ''Docs'', Str [])])"
proof -
  let ?cs = "[leaf ''2'' ''one'' ''https://a.example/'',
              container ''5'' ''Docs'' [leaf ''6'' ''two'' ''https://b.example/'']]"
  have c: "get untitled_root ''children'' = Inr (Arr ?cs)" by code_simp
  have t: "\<not> truthy (field_of untitled_root ''title'')" by code_simp
  have f: "folder_path example_platform (Str []) (field_of untitled_root ''title'') = Inr Undefined"
    by code_simp
  from untitled_container_is_skipped [of untitled_root ?cs example_platform "Str []" empty_acc] c t f
  have 1: "visit example_platform (Str []) untitled_root empty_acc
     = traverse example_platform (Str []) ?cs empty_acc"
    by simp
  have 2: "(case traverse example_platform (Str []) ?cs empty_acc of
         Inl e \<Rightarrow> False
       | Inr st \<Rightarrow>
           map (\<lambda>b. field_of b ''folder'') (acc_bookmarks st) = [Str ROOT_FOLDER, Str ''Docs'']
           \<and> map (\<lambda>f. (field_of f ''id'', field_of f ''path'', field_of f ''parentPath''))
                  (acc_folders st) = [(Str ''5'', Str ''Docs'', Str [])])"
    by code_simp
  show ?thesis using 1 2 by simp
qed

text \<open>
  Claim C2, as amended. Every bookmark that the native-tree parser or the markup
  parser returns has tags without duplicates and a domain that is the safe
  extraction from its url: a string when the url is one, and not the empty string
  unless the url is empty or parses to an empty hostname. The url is truthy in a
  bookmark of the native-tree parser and a string in one of the markup parser.
  The folder of a bookmark of the markup parser is the root label or the path
  of a folder of the returned list; so is the folder of a bookmark of the
  native-tree parser, unless it is the path of a container for which the parser
  makes no folder. The JSON file parser returns the array \<open>bookmarks\<close> of the
  file as it is when the file has one, and otherwise what the native-tree parser
  returns for the three roots of the file.
\<close>

theorem parsers_normalize:
  "(parseBookmarkTree P nodes = Inr r \<longrightarrow>
      (\<forall>b\<in>set (items (parsed_bookmarks r)).
          tags_distinct b
          \<and> truthy (field_of b ''url'')
          \<and> domain_extracted P b
          \<and> (is_str (field_of b ''url'') \<longrightarrow> is_str (field_of b ''domain''))
          \<and> ((\<forall>s. to_string P (field_of b ''url'') = Inr s \<longrightarrow> url_hostname P s \<noteq> Some [])
               \<longrightarrow> field_of b ''domain'' \<noteq> Str [])
          \<and> (folder_known (items (parsed_folders r)) b
               \<or> field_of b ''folder'' \<in> set (pseudo_root_paths P (Str []) (items nodes)))))
   \<and> (parseHTMLBookmarks P root = Inr h \<longrightarrow>
      (\<forall>b\<in>set (items (parsed_bookmarks h)).
          tags_distinct b
          \<and> is_str (field_of b ''url'')
          \<and> domain_extracted P b
          \<and> is_str (field_of b ''domain'')
          \<and> (field_of b ''url'' \<noteq> Str []
                \<and> url_hostname P (text_of (field_of b ''url'')) \<noteq> Some []
               \<longrightarrow> field_of b ''domain'' \<noteq> Str [])
          \<and> folder_known (items (parsed_folders h)) b))
   \<and> (parseJSONBookmarks P t = Inr r' \<longrightarrow>
        (\<exists>data. JSON_parse t = Inr data
           \<and> (if isArray (field_of data ''bookmarks'')
               then r' = \<lparr>parsed_bookmarks = field_of data ''bookmarks'',
                          parsed_folders = (if truthy (field_of data ''folders'')
                                            then field_of data ''folders'' else Arr [])\<rparr>
               else truthy (field_of data ''roots'')
                    \<and> parseBookmarkTree P
                          (Arr [field_of (field_of data ''roots'') ''bookmark_bar'',
                                field_of (field_of data ''roots'') ''other'',
                                field_of (field_of data ''roots'') ''synced'']) = Inr r')))"
proof (intro conjI impI ballI)
  fix b
  assume p: "parseBookmarkTree P nodes = Inr r" and b: "b \<in> set (items (parsed_bookmarks r))"
  from tree_tags_distinct [OF p] b show "tags_distinct b" by blast
  from tree_domain_extracted [OF p] b show u: "truthy (field_of b ''url'')"
    and d: "domain_extracted P b" by blast+
  from tree_placed [OF p] b
  show "folder_known (items (parsed_folders r)) b
        \<or> field_of b ''folder'' \<in> set (pseudo_root_paths P (Str []) (items nodes))"
    by blast
  {
    assume "is_str (field_of b ''url'')"
    with d show "is_str (field_of b ''domain'')" by (rule domain_string)
  next
    assume "\<forall>s. to_string P (field_of b ''url'') = Inr s \<longrightarrow> url_hostname P s \<noteq> Some []"
    with d u show "field_of b ''domain'' \<noteq> Str []" by (rule domain_nonempty)
  }
next
  fix b
  assume p: "parseHTMLBookmarks P root = Inr h" and b: "b \<in> set (items (parsed_bookmarks h))"
  from html_links_ok [OF p] b have l: "link_ok P b" and k: "folder_known (items (parsed_folders h)) b"
    by blast+
  from l show t: "tags_distinct b" and s: "is_str (field_of b ''url'')" and d: "domain_extracted P b"
    by (simp_all add: link_ok_def)
  from d s show "is_str (field_of b ''domain'')" by (rule domain_string)
  from k show "folder_known (items (parsed_folders h)) b" .
  {
    assume a: "field_of b ''url'' \<noteq> Str []
                \<and> url_hostname P (text_of (field_of b ''url'')) \<noteq> Some []"
    from s obtain v where v: "field_of b ''url'' = Str v" by (auto dest: is_strE)
    with a have "truthy (field_of b ''url'')"
      and "\<forall>s. to_string P (field_of b ''url'') = Inr s \<longrightarrow> url_hostname P s \<noteq> Some []"
      by (simp_all add: text_of_def)
    with d show "field_of b ''domain'' \<noteq> Str []" by (rule domain_nonempty)
  }
next
  assume "parseJSONBookmarks P t = Inr r'"
  then show "\<exists>data. JSON_parse t = Inr data
           \<and> (if isArray (field_of data ''bookmarks'')
               then r' = \<lparr>parsed_bookmarks = field_of data ''bookmarks'',
                          parsed_folders = (if truthy (field_of data ''folders'')
                                            then field_of data ''folders'' else Arr [])\<rparr>
               else truthy (field_of data ''roots'')
                    \<and> parseBookmarkTree P
                          (Arr [field_of (field_of data ''roots'') ''bookmark_bar'',
                                field_of (field_of data ''roots'') ''other'',
                                field_of (field_of data ''roots'') ''synced'']) = Inr r')"
    by (rule json_parser_paths)
qed

theorem parsers_normalize_witness:
  "(case parseBookmarkTree example_platform bar_tree of
      Inl e \<Rightarrow> False
    | Inr r \<Rightarrow>
        list_all (\<lambda>b. tags_distinct b \<and> domain_extracted example_platform b
                      \<and> field_of b ''domain'' \<noteq> Str []
                      \<and> (folder_known (items (parsed_folders r)) b
                           \<or> field_of b ''folder''
                               \<in> set (pseudo_root_paths example_platform (Str []) (items bar_tree))))
                 (items (parsed_bookmarks r))
        \<and> map (\<lambda>b. field_of b ''folder'') (items (parsed_bookmarks r))
            = [Str BOOKMARKS_BAR, Str (BOOKMARKS_BAR @ ''/Work'')]
        \<and> map (\<lambda>f. field_of f ''path'') (items (parsed_folders r))
            = [Str (BOOKMARKS_BAR @ ''/Work'')]
        \<and> pseudo_root_paths example_platform (Str []) (items bar_tree)
            = [Str BOOKMARKS_BAR])
   \<and> (case parseHTMLBookmarks example_platform (Some work_export) of
         Inl e \<Rightarrow> False
       | Inr h \<Rightarrow>
           list_all (\<lambda>b. tags_distinct b \<and> domain_extracted example_platform b
                         \<and> field_of b ''domain'' \<noteq> Str []
                         \<and> folder_known (items (parsed_folders h)) b)
                    (items (parsed_bookmarks h))
           \<and> map (\<lambda>b. (field_of b ''folder'', field_of b ''domain'')) (items (parsed_bookmarks h))
               = [(Str ''Work'', Str ''github.com'')])"
proof -
  have h1: "url_hostname example_platform ''https://a.example/'' \<noteq> Some []" by code_simp
  have h2: "url_hostname example_platform ''https://b.example/'' \<noteq> Some []" by code_simp
  have h3: "url_hostname example_platform ''https://github.com/x'' \<noteq> Some []" by code_simp
  have tree: "(case parseBookmarkTree example_platform bar_tree of
      Inl e \<Rightarrow> False
    | Inr r \<Rightarrow>
        list_all (\<lambda>b. tags_distinct b \<and> domain_extracted example_platform b
                      \<and> field_of b ''domain'' \<noteq> Str []
                      \<and> (folder_known (items (parsed_folders r)) b
                           \<or> field_of b ''folder''
                               \<in> set (pseudo_root_paths example_platform (Str []) (items bar_tree))))
                 (items (parsed_bookmarks r))
        \<and> map (\<lambda>b. field_of b ''folder'') (items (parsed_bookmarks r))
            = [Str BOOKMARKS_BAR, Str (BOOKMARKS_BAR @ ''/Work'')]
        \<and> map (\<lambda>f. field_of f ''path'') (items (parsed_folders r))
            = [Str (BOOKMARKS_BAR @ ''/Work'')]
        \<and> pseudo_root_paths example_platform (Str []) (items bar_tree)
            = [Str BOOKMARKS_BAR])"
  proof (cases "parseBookmarkTree example_platform bar_tree")
    case (Inl e)
    have "(case parseBookmarkTree example_platform bar_tree of Inl e \<Rightarrow> False | Inr r \<Rightarrow> True)"
      by code_simp
    with Inl show ?thesis by simp
  next
    case (Inr r)
    have "(case parseBookmarkTree example_platform bar_tree of
             Inl e \<Rightarrow> False
           | Inr r \<Rightarrow>
               map (\<lambda>b. field_of b ''url'') (items (parsed_bookmarks r))
                 = [Str ''https://a.example/'', Str ''https://b.example/'']
               \<and> map (\<lambda>b. field_of b ''folder'') (items (parsed_bookmarks r))
                   = [Str BOOKMARKS_BAR, Str (BOOKMARKS_BAR @ ''/Work'')]
               \<and> map (\<lambda>f. field_of f ''path'') (items (parsed_folders r))
                   = [Str (BOOKMARKS_BAR @ ''/Work'')])"
      by code_simp
    with Inr have m: "map (\<lambda>b. field_of b ''url'') (items (parsed_bookmarks r))
                 = [Str ''https://a.example/'', Str ''https://b.example/'']"
      and f: "map (\<lambda>b. field_of b ''folder'') (items (parsed_bookmarks r))
                   = [Str BOOKMARKS_BAR, Str (BOOKMARKS_BAR @ ''/Work'')]"
      and g: "map (\<lambda>f. field_of f ''path'') (items (parsed_folders r))
                   = [Str (BOOKMARKS_BAR @ ''/Work'')]"
      by simp_all
    have q: "pseudo_root_paths example_platform (Str []) (items bar_tree) = [Str BOOKMARKS_BAR]"
      by code_simp
    have "\<forall>b\<in>set (items (parsed_bookmarks r)).
            tags_distinct b \<and> domain_extracted example_platform b
            \<and> field_of b ''domain'' \<noteq> Str []
            \<and> (folder_known (items (parsed_folders r)) b
                 \<or> field_of b ''folder''
                     \<in> set (pseudo_root_paths example_platform (Str []) (items bar_tree)))"
    proof
      fix b assume b: "b \<in> set (items (parsed_bookmarks r))"
      then have "field_of b ''url'' \<in> set (map (\<lambda>b. field_of b ''url'') (items (parsed_bookmarks r)))"
        by simp
      then have "field_of b ''url'' \<in> {Str ''https://a.example/'', Str ''https://b.example/''}"
        unfolding m by simp
      then have "\<forall>s. to_string example_platform (field_of b ''url'') = Inr s
           \<longrightarrow> url_hostname example_platform s \<noteq> Some []"
        using h1 h2 by auto
      with parsers_normalize [of example_platform bar_tree r] Inr b
      show "tags_distinct b \<and> domain_extracted example_platform b
            \<and> field_of b ''domain'' \<noteq> Str []
            \<and> (folder_known (items (parsed_folders r)) b
                 \<or> field_of b ''folder''
                     \<in> set (pseudo_root_paths example_platform (Str []) (items bar_tree)))"
        by blast
    qed
    with Inr f g q show ?thesis by (simp add: list_all_iff)
  qed
  have markup: "(case parseHTMLBookmarks example_platform (Some work_export) of
         Inl e \<Rightarrow> False
       | Inr h \<Rightarrow>
           list_all (\<lambda>b. tags_distinct b \<and> domain_extracted example_platform b
                         \<and> field_of b ''domain'' \<noteq> Str []
                         \<and> folder_known (items (parsed_folders h)) b)
                    (items (parsed_bookmarks h))
           \<and> map (\<lambda>b. (field_of b ''folder'', field_of b ''domain'')) (items (parsed_bookmarks h))
               = [(Str ''Work'', Str ''github.com'')])"
  proof (cases "parseHTMLBookmarks example_platform (Some work_export)")
    case (Inl e)
    have "(case parseHTMLBookmarks example_platform (Some work_export) of
             Inl e \<Rightarrow> False | Inr h \<Rightarrow> True)"
      by code_simp
    with Inl show ?thesis by simp
  next
    case (Inr h)
    have "(case parseHTMLBookmarks example_platform (Some work_export) of
             Inl e \<Rightarrow> False
           | Inr h \<Rightarrow>
               map (\<lambda>b. field_of b ''url'') (items (parsed_bookmarks h))
                 = [Str ''https://github.com/x'']
               \<and> map (\<lambda>b. (field_of b ''folder'', field_of b ''domain'')) (items (parsed_bookmarks h))
                   = [(Str ''Work'', Str ''github.com'')])"
      by code_simp
    with Inr have m: "map (\<lambda>b. field_of b ''url'') (items (parsed_bookmarks h))
                 = [Str ''https://github.com/x'']"
      and f: "map (\<lambda>b. (field_of b ''folder'', field_of b ''domain'')) (items (parsed_bookmarks h))
                   = [(Str ''Work'', Str ''github.com'')]"
      by simp_all
    have "\<forall>b\<in>set (items (parsed_bookmarks h)).
            tags_distinct b \<and> domain_extracted example_platform b
            \<and> field_of b ''domain'' \<noteq> Str []
            \<and> folder_known (items (parsed_folders h)) b"
    proof
      fix b assume b: "b \<in> set (items (parsed_bookmarks h))"
      then have "field_of b ''url'' \<in> set (map (\<lambda>b. field_of b ''url'') (items (parsed_bookmarks h)))"
        by simp
      then have "field_of b ''url'' = Str ''https://github.com/x''"
        unfolding m by simp
      then have "field_of b ''url'' \<noteq> Str []
                \<and> url_hostname example_platform (text_of (field_of b ''url'')) \<noteq> Some []"
        using h3 by (simp add: text_of_def)
      with parsers_normalize [of example_platform Null undefined "Some work_export" h] Inr b
      show "tags_distinct b \<and> domain_extracted example_platform b
            \<and> field_of b ''domain'' \<noteq> Str []
            \<and> folder_known (items (parsed_folders h)) b"
        by blast
    qed
    with Inr f show ?thesis by (simp add: list_all_iff)
  qed
  from tree markup show ?thesis by (rule conjI)
qed

text \<open>
  The claim as stated fails on every path. The bookmarks of an export file are
  passed through with an empty domain, a doubled tag and a folder nobody has. The
  native-tree parser gives a bookmark on the bookmarks bar the bar's title as its
  folder, for which it makes no folder, while the bookmark of the folder below the
  bar has that folder's path. The domain is empty for a mail link in the tree
  and for a link without an \<open>HREF\<close> in the markup. And the domain is no string
  for a leaf of the tree whose url is an array.
\<close>

theorem normalization_counterexample:
  "parseJSONBookmarks example_platform tagged_export
     = Inr \<lparr>parsed_bookmarks =
              Arr [Obj [(''title'', Str ''x''), (''domain'', Str ''''),
                        (''tags'', Arr [Str ''a'', Str ''a'']), (''folder'', Str ''nowhere'')]],
            parsed_folders = Arr []\<rparr>
   \<and> (case parseBookmarkTree example_platform bar_tree of
         Inl e \<Rightarrow> False
       | Inr r \<Rightarrow>
           map (\<lambda>b. field_of b ''folder'') (items (parsed_bookmarks r))
             = [Str BOOKMARKS_BAR, Str (BOOKMARKS_BAR @ ''/Work'')]
           \<and> map (\<lambda>f. field_of f ''path'') (items (parsed_folders r))
               = [Str (BOOKMARKS_BAR @ ''/Work'')]
           \<and> BOOKMARKS_BAR \<noteq> ROOT_FOLDER
           \<and> BOOKMARKS_BAR \<noteq> BOOKMARKS_BAR @ ''/Work'')
   \<and> (case parseBookmarkTree example_platform mail_tree of
         Inl e \<Rightarrow> False
       | Inr r \<Rightarrow>
           map (\<lambda>b. (field_of b ''url'', field_of b ''domain'')) (items (parsed_bookmarks r))
             = [(Str ''mailto:someone@example.com'', Str [])])
   \<and> (case parseHTMLBookmarks example_platform (Some bare_link) of
         Inl e \<Rightarrow> False
       | Inr h \<Rightarrow>
           map (\<lambda>b. (field_of b ''url'', field_of b ''domain'')) (items (parsed_bookmarks h))
             = [(Str [], Str [])])
   \<and> (case parseBookmarkTree example_platform array_url_tree of
         Inl e \<Rightarrow> False
       | Inr r \<Rightarrow>
           map (\<lambda>b. (field_of b ''url'', field_of b ''domain'')) (items (parsed_bookmarks r))
             = [(Arr [Str ''x''], Arr [Str ''x''])])"
  by code_simp

end
